theory Spec2Isabelle
  imports Main "HOL-Library.Sublist"
begin

section \<open>The enrichment job engine of server.cjs\<close>

text \<open>
  The server reads a table of companies, pages through the employees of each company at a
  remote provider, looks up an email and a phone number for every employee, and publishes
  progress snapshots while it runs. The model follows \<^verbatim>\<open>server.cjs\<close> function
  by function. Everything the code does besides computing a value is an event of a trace,
  in the order in which it happens: an outbound request, a wait, a published snapshot.
\<close>

subsection \<open>Constants\<close>

definition PAGE_SIZE :: nat where
  "PAGE_SIZE = 50"

definition DELAY_MS :: nat where
  "DELAY_MS = 150"

subsection \<open>Provider data\<close>

text \<open>
  The provider answers in JSON. A field that is absent, \<^verbatim>\<open>null\<close> or the empty
  string is falsy in JavaScript, and the code reads every field through \<^verbatim>\<open>x || dflt\<close>,
  so an optional field is an \<open>option\<close> and \<open>js_or\<close> is the operator \<^verbatim>\<open>||\<close> on
  strings.
\<close>

record experience =
  exp_job_is_current :: bool
  exp_company_linkedin_url :: "string option"
  exp_job_title :: "string option"

record location =
  loc_city :: "string option"
  loc_state_code :: "string option"
  loc_country_code :: "string option"

record employee =
  emp_linkedin_url :: "string option"
  emp_location :: "location option"
  emp_experiences :: "experience list option"
  emp_headline :: "string option"
  emp_full_name :: "string option"
  emp_first_name :: "string option"
  emp_last_name :: "string option"
  emp_connections_count :: "nat option"

text \<open>The fields the code reads from a response object, one record for the three operations.\<close>

record reply =
  data_results :: "employee list option"
  data_email :: "string option"
  data_email_status :: "string option"
  data_phone :: "string option"

text \<open>
  A parsed response body. Reading a property of \<^verbatim>\<open>null\<close> throws a TypeError; every
  other body that is not an object behaves like the empty object, since all its properties
  are undefined.
\<close>

datatype json = JNull | JObject reply

definition empty_object :: json where
  "empty_object =
     JObject \<lparr>data_results = None, data_email = None, data_email_status = None, data_phone = None\<rparr>"

definition js_or :: "string option \<Rightarrow> string \<Rightarrow> string" where
  "js_or v dflt = (case v of None \<Rightarrow> dflt | Some s \<Rightarrow> if s = [] then dflt else s)"

subsection \<open>Job status and snapshots\<close>

datatype phase = Queued | Enriching | Done | Error

record status =
  phase :: phase
  companyCurrent :: nat
  companyTotal :: nat
  currentCompanyName :: "string option"
  employeesFound :: nat
  emailsFound :: nat
  phonesFound :: nat
  done_flag :: bool
  error :: "string option"

text \<open>An update is an object literal: field assignments, merged in order by Object.assign.\<close>

datatype assignment =
    Set_phase phase
  | Set_companyCurrent nat
  | Set_currentCompanyName string
  | Set_employeesFound nat
  | Set_emailsFound nat
  | Set_phonesFound nat
  | Set_done bool
  | Set_error string

fun assign1 :: "status \<Rightarrow> assignment \<Rightarrow> status" where
  "assign1 s (Set_phase p) = s\<lparr>phase := p\<rparr>"
| "assign1 s (Set_companyCurrent n) = s\<lparr>companyCurrent := n\<rparr>"
| "assign1 s (Set_currentCompanyName n) = s\<lparr>currentCompanyName := Some n\<rparr>"
| "assign1 s (Set_employeesFound n) = s\<lparr>employeesFound := n\<rparr>"
| "assign1 s (Set_emailsFound n) = s\<lparr>emailsFound := n\<rparr>"
| "assign1 s (Set_phonesFound n) = s\<lparr>phonesFound := n\<rparr>"
| "assign1 s (Set_done b) = s\<lparr>done_flag := b\<rparr>"
| "assign1 s (Set_error m) = s\<lparr>error := Some m\<rparr>"

definition object_assign :: "status \<Rightarrow> assignment list \<Rightarrow> status" where
  "object_assign s upd = foldl assign1 s upd"

subsection \<open>Events and the remote provider\<close>

datatype req_body =
    SearchBody string nat nat
  | PersonBody string

text \<open>
  \<open>Fetch endpoint body apiKey\<close> is one POST to the provider, \<open>Sleep ms\<close> one call of
  \<^verbatim>\<open>sleep\<close>, \<open>Publish s\<close> one call of \<^verbatim>\<open>broadcast\<close>, which writes the
  merged status \<open>s\<close> to every listener.
\<close>

datatype event =
    Fetch string req_body string
  | Sleep nat
  | Publish status

text \<open>
  What one \<^verbatim>\<open>fetch\<close> gives: the promise rejects (network error, or the 30 second
  deadline), or a response arrives with a status code and a body; the body is \<open>None\<close>
  when \<^verbatim>\<open>r.json()\<close> rejects.
\<close>

datatype fetch_outcome =
    Rejected
  | Response nat "json option"

text \<open>
  The provider is a parameter: the outcome of a request may depend on everything that has
  happened before it. A trace only grows, so no two requests of a run are made at the same
  trace, and every sequence of outcomes is the behaviour of some provider.
\<close>

type_synonym net = "event list \<Rightarrow> string \<Rightarrow> req_body \<Rightarrow> string \<Rightarrow> fetch_outcome"

definition response_ok :: "nat \<Rightarrow> bool" where
  "response_ok st = (200 \<le> st \<and> st \<le> 299)"

text \<open>How an asynchronous function ends. \<open>OutOfFuel\<close> stands for a loop still running.\<close>

datatype 'a result = Returned 'a | Thrown string | OutOfFuel

subsection \<open>blitzPost\<close>

text \<open>
  One pass through the body of the \<^verbatim>\<open>for\<close> loop ends in \<^verbatim>\<open>continue\<close> (or falls
  out of the catch block, which is the same), or in \<^verbatim>\<open>return\<close>.
\<close>

datatype control = Continue | Return json

text \<open>The try block; \<open>Thrown\<close> is an exception on its way to the catch block.\<close>

definition attempt_try ::
  "net \<Rightarrow> string \<Rightarrow> req_body \<Rightarrow> string \<Rightarrow> nat \<Rightarrow> nat \<Rightarrow> event list \<Rightarrow> control result \<times> event list" where
  "attempt_try nt endpoint body apiKey retries attempt tr =
     (let tr1 = tr @ [Fetch endpoint body apiKey] in
      case nt tr endpoint body apiKey of
        Rejected \<Rightarrow> (Thrown ''fetch failed'', tr1)
      | Response st bd \<Rightarrow>
          if st = 429 then
            (Returned Continue, tr1 @ [Sleep (min (1000 * 2 ^ attempt) 16000)])
          else if st = 422 \<or> st = 404 then (Returned (Return empty_object), tr1)
          else if \<not> response_ok st then
            (if attempt < retries then (Returned Continue, tr1 @ [Sleep (1000 * (attempt + 1))])
             else (Returned (Return empty_object), tr1))
          else (case bd of
                  None \<Rightarrow> (Thrown ''invalid json'', tr1)
                | Some j \<Rightarrow> (Returned (Return j), tr1)))"

text \<open>The catch block.\<close>

definition attempt_catch :: "nat \<Rightarrow> nat \<Rightarrow> event list \<Rightarrow> control result \<times> event list" where
  "attempt_catch retries attempt tr =
     (if attempt < retries then (Returned Continue, tr @ [Sleep (1000 * (attempt + 1))])
      else (Returned (Return empty_object), tr))"

definition attempt_body ::
  "net \<Rightarrow> string \<Rightarrow> req_body \<Rightarrow> string \<Rightarrow> nat \<Rightarrow> nat \<Rightarrow> event list \<Rightarrow> control result \<times> event list" where
  "attempt_body nt endpoint body apiKey retries attempt tr =
     (case attempt_try nt endpoint body apiKey retries attempt tr of
        (Thrown e, tr1) \<Rightarrow> attempt_catch retries attempt tr1
      | other \<Rightarrow> other)"

function blitzPost_from ::
  "net \<Rightarrow> string \<Rightarrow> req_body \<Rightarrow> string \<Rightarrow> nat \<Rightarrow> nat \<Rightarrow> event list \<Rightarrow> json result \<times> event list" where
  "blitzPost_from nt endpoint body apiKey retries attempt tr =
     (if attempt \<le> retries then
        (case attempt_body nt endpoint body apiKey retries attempt tr of
           (Returned Continue, tr1) \<Rightarrow> blitzPost_from nt endpoint body apiKey retries (attempt + 1) tr1
         | (Returned (Return j), tr1) \<Rightarrow> (Returned j, tr1)
         | (Thrown e, tr1) \<Rightarrow> (Thrown e, tr1)
         | (OutOfFuel, tr1) \<Rightarrow> (OutOfFuel, tr1))
      else (Returned empty_object, tr))"
  by pat_completeness auto
termination
  by (relation "measure (\<lambda>(nt, endpoint, body, apiKey, retries, attempt, tr). Suc retries - attempt)") auto

text \<open>The default of the parameter \<^verbatim>\<open>retries\<close> is 4, and no caller passes another value.\<close>

definition blitzPost ::
  "net \<Rightarrow> string \<Rightarrow> req_body \<Rightarrow> string \<Rightarrow> event list \<Rightarrow> json result \<times> event list" where
  "blitzPost nt endpoint body apiKey tr = blitzPost_from nt endpoint body apiKey 4 0 tr"

declare blitzPost_from.simps [simp del]

subsection \<open>findAllEmployees\<close>

text \<open>
  The loop \<^verbatim>\<open>while (true)\<close> ends only at a short page, so it need not end at all.
  The fuel bounds the number of pages: a run that uses it up is still paging, and the
  trace holds what it has done so far.
\<close>

fun findAllEmployees_loop ::
  "nat \<Rightarrow> net \<Rightarrow> string \<Rightarrow> string \<Rightarrow> employee list \<Rightarrow> nat \<Rightarrow> event list
     \<Rightarrow> employee list result \<times> event list" where
  "findAllEmployees_loop 0 nt companyUrl apiKey all page tr = (OutOfFuel, tr)"
| "findAllEmployees_loop (Suc fuel) nt companyUrl apiKey all page tr =
     (case blitzPost nt ''/v2/search/employee-finder'' (SearchBody companyUrl PAGE_SIZE page) apiKey tr of
        (Returned JNull, tr1) \<Rightarrow> (Thrown ''Cannot read properties of null (reading results)'', tr1)
      | (Returned (JObject data), tr1) \<Rightarrow>
          (let results = (case data_results data of None \<Rightarrow> [] | Some rs \<Rightarrow> rs);
               all' = all @ results
           in if length results < PAGE_SIZE then (Returned all', tr1)
              else findAllEmployees_loop fuel nt companyUrl apiKey all' (page + 1) (tr1 @ [Sleep DELAY_MS]))
      | (Thrown e, tr1) \<Rightarrow> (Thrown e, tr1)
      | (OutOfFuel, tr1) \<Rightarrow> (OutOfFuel, tr1))"

definition findAllEmployees ::
  "nat \<Rightarrow> net \<Rightarrow> string \<Rightarrow> string \<Rightarrow> event list \<Rightarrow> employee list result \<times> event list" where
  "findAllEmployees fuel nt companyUrl apiKey tr = findAllEmployees_loop fuel nt companyUrl apiKey [] 1 tr"

subsection \<open>getCurrentExperience\<close>

text \<open>\<^verbatim>\<open>s.replace(/\/$/, '')\<close> removes one slash at the end of the string.\<close>

definition strip_trailing_slash :: "string \<Rightarrow> string" where
  "strip_trailing_slash s = (if s \<noteq> [] \<and> last s = CHR ''/'' then butlast s else s)"

text \<open>
  \<^verbatim>\<open>s.split(sep)\<close> for a separator that is not empty: the string is scanned from the
  left, and the scan goes on behind each separator found. \<open>piece\<close> is the part read
  since the last separator.
\<close>

function js_split_from :: "string \<Rightarrow> string \<Rightarrow> string \<Rightarrow> string list" where
  "js_split_from sep piece [] = [piece]"
| "js_split_from sep piece (c # cs) =
     (if sep \<noteq> [] \<and> prefix sep (c # cs)
      then piece # js_split_from sep [] (drop (length sep) (c # cs))
      else js_split_from sep (piece @ [c]) cs)"
  by pat_completeness auto
termination
  by (relation "measure (\<lambda>(sep, piece, s). length s)") auto

definition js_split :: "string \<Rightarrow> string \<Rightarrow> string list" where
  "js_split sep s = js_split_from sep [] s"

text \<open>\<^verbatim>\<open>s.includes(sub)\<close>: \<open>sub\<close> occurs in \<open>s\<close> as a contiguous run.\<close>

fun js_includes :: "string \<Rightarrow> string \<Rightarrow> bool" where
  "js_includes [] sub = (sub = [])"
| "js_includes (c # cs) sub = (prefix sub (c # cs) \<or> js_includes cs sub)"

text \<open>The slug: \<^verbatim>\<open>companyUrl.replace(/\/$/, '').split('/company/').pop()\<close>.\<close>

definition company_slug :: "string \<Rightarrow> string" where
  "company_slug companyUrl = last (js_split ''/company/'' (strip_trailing_slash companyUrl))"

text \<open>The object \<^verbatim>\<open>{}\<close> returned for an empty history: every property is undefined.\<close>

definition empty_experience :: experience where
  "empty_experience =
     \<lparr>exp_job_is_current = False, exp_company_linkedin_url = None, exp_job_title = None\<rparr>"

definition slug_match :: "string \<Rightarrow> experience \<Rightarrow> bool" where
  "slug_match slug exp =
     (exp_job_is_current exp \<and> slug \<noteq> [] \<and> js_includes (js_or (exp_company_linkedin_url exp) []) slug)"

definition getCurrentExperience :: "experience list \<Rightarrow> string \<Rightarrow> experience" where
  "getCurrentExperience experiences companyUrl =
     (let slug = company_slug companyUrl in
      case find (slug_match slug) experiences of
        Some exp \<Rightarrow> exp
      | None \<Rightarrow>
          (case find exp_job_is_current experiences of
             Some exp \<Rightarrow> exp
           | None \<Rightarrow> (case experiences of [] \<Rightarrow> empty_experience | exp # rest \<Rightarrow> exp)))"

declare js_split_from.simps [simp del]

subsection \<open>Jobs\<close>

text \<open>One record of the parsed input table: column name to cell.\<close>

type_synonym row = "string \<Rightarrow> string option"

record result_row =
  company_name :: string
  company_linkedin_url :: string
  company_domain :: string
  company_location :: string
  company_size :: string
  full_name :: string
  first_name :: string
  last_name :: string
  job_title :: string
  headline :: string
  person_linkedin_url :: string
  city :: string
  state :: string
  country :: string
  email :: string
  email_status :: string
  phone_mobile :: string
  connections_count :: "nat option"

text \<open>
  The job object of the upload handler. The listeners are left out: \<^verbatim>\<open>broadcast\<close>
  writes the same message to each of them, and that message is the \<open>Publish\<close> event.
\<close>

record job =
  job_id :: string
  status :: status
  rows :: "row list"
  linkedinCol :: string
  nameCol :: "string option"
  domainCol :: "string option"
  locationCol :: "string option"
  sizeCol :: "string option"
  apiKey :: string
  skipPhone :: bool
  results :: "result_row list"

text \<open>
  \<^verbatim>\<open>s.trim()\<close> removes white space and line terminators at both ends. A JavaScript
  string is a sequence of code units, and these are the code units that count as white
  space or line terminator: tab, line feed, vertical tab, form feed, carriage return,
  space, no-break space, U+1680, U+2000 to U+200A, U+2028, U+2029, U+202F, U+205F, U+3000
  and U+FEFF. A \<open>char\<close> is a code unit below 256.
\<close>

definition js_whitespace_unit :: "int \<Rightarrow> bool" where
  "js_whitespace_unit u =
     (u \<in> set [0x09, 0x0A, 0x0B, 0x0C, 0x0D, 0x20, 0xA0, 0x1680,
                0x2000, 0x2001, 0x2002, 0x2003, 0x2004, 0x2005, 0x2006, 0x2007, 0x2008, 0x2009,
                0x200A, 0x2028, 0x2029, 0x202F, 0x205F, 0x3000, 0xFEFF])"

definition js_whitespace :: "char \<Rightarrow> bool" where
  "js_whitespace c = js_whitespace_unit (of_char c)"

definition js_trim :: "string \<Rightarrow> string" where
  "js_trim s = rev (dropWhile js_whitespace (rev (dropWhile js_whitespace s)))"

text \<open>
  The tail of the upload handler, from \<^verbatim>\<open>crypto.randomUUID()\<close> on: the parsed rows,
  the detected columns and the form fields \<^verbatim>\<open>apiKey\<close> and \<^verbatim>\<open>skipPhone\<close> come
  from the request, the job id from the random generator. A form field that was not
  submitted is \<open>None\<close>.
\<close>

definition doSkipPhone :: "string option \<Rightarrow> bool" where
  "doSkipPhone skipPhoneField = (skipPhoneField = Some ''true'')"

definition new_job ::
  "string \<Rightarrow> row list \<Rightarrow> string \<Rightarrow> string option \<Rightarrow> string option \<Rightarrow> string option \<Rightarrow> string option
     \<Rightarrow> string \<Rightarrow> string option \<Rightarrow> job" where
  "new_job jobId rws liCol nmCol dmCol lcCol szCol key skipPhoneField =
     \<lparr>job_id = jobId,
      status = \<lparr>phase = Queued, companyCurrent = 0, companyTotal = length rws,
                currentCompanyName = None, employeesFound = 0, emailsFound = 0, phonesFound = 0,
                done_flag = False, error = None\<rparr>,
      rows = rws, linkedinCol = liCol, nameCol = nmCol, domainCol = dmCol, locationCol = lcCol,
      sizeCol = szCol, apiKey = js_trim key, skipPhone = doSkipPhone skipPhoneField,
      results = []\<rparr>"

subsection \<open>The state of a run and broadcast\<close>

text \<open>
  What \<^verbatim>\<open>runEnrichment\<close> changes as it goes: the job (its status and its results),
  its three local counters, and the trace.
\<close>

record run_state =
  rs_job :: job
  var_employeesFound :: nat
  var_emailsFound :: nat
  var_phonesFound :: nat
  rs_trace :: "event list"

definition broadcast :: "assignment list \<Rightarrow> run_state \<Rightarrow> run_state" where
  "broadcast update s =
     (let st = object_assign (status (rs_job s)) update
      in s\<lparr>rs_job := (rs_job s)\<lparr>status := st\<rparr>, rs_trace := rs_trace s @ [Publish st]\<rparr>)"

definition sleep :: "nat \<Rightarrow> run_state \<Rightarrow> run_state" where
  "sleep ms s = s\<lparr>rs_trace := rs_trace s @ [Sleep ms]\<rparr>"

subsection \<open>runEnrichment: one employee\<close>

text \<open>The company columns of the row being processed.\<close>

record company =
  companyUrl :: string
  companyName :: string
  companyDomain :: string
  companyLocation :: string
  companySize :: string

text \<open>The email lookup of one employee, up to the wait behind it. Returns email and status.\<close>

definition email_step ::
  "net \<Rightarrow> string \<Rightarrow> string \<Rightarrow> run_state \<Rightarrow> (string \<times> string) result \<times> run_state" where
  "email_step nt key liUrl s =
     (case blitzPost nt ''/v2/enrichment/email'' (PersonBody liUrl) key (rs_trace s) of
        (Returned JNull, tr1) \<Rightarrow>
          (Thrown ''Cannot read properties of null (reading email)'', s\<lparr>rs_trace := tr1\<rparr>)
      | (Returned (JObject emailData), tr1) \<Rightarrow>
          (let s1 = s\<lparr>rs_trace := tr1\<rparr>;
               eml = js_or (data_email emailData) [];
               emailStatus = js_or (data_email_status emailData) [];
               s2 = (if eml \<noteq> []
                     then (let s' = s1\<lparr>var_emailsFound := var_emailsFound s1 + 1\<rparr>
                           in broadcast [Set_emailsFound (var_emailsFound s')] s')
                     else s1)
           in (Returned (eml, emailStatus), sleep DELAY_MS s2))
      | (Thrown e, tr1) \<Rightarrow> (Thrown e, s\<lparr>rs_trace := tr1\<rparr>)
      | (OutOfFuel, tr1) \<Rightarrow> (OutOfFuel, s\<lparr>rs_trace := tr1\<rparr>))"

text \<open>The phone lookup of one employee, inside \<^verbatim>\<open>if (!skipPhone)\<close>. Returns the phone.\<close>

definition phone_step ::
  "net \<Rightarrow> string \<Rightarrow> string \<Rightarrow> run_state \<Rightarrow> string result \<times> run_state" where
  "phone_step nt key liUrl s =
     (case blitzPost nt ''/v2/enrichment/phone'' (PersonBody liUrl) key (rs_trace s) of
        (Returned JNull, tr1) \<Rightarrow>
          (Thrown ''Cannot read properties of null (reading phone)'', s\<lparr>rs_trace := tr1\<rparr>)
      | (Returned (JObject phoneData), tr1) \<Rightarrow>
          (let s1 = s\<lparr>rs_trace := tr1\<rparr>;
               phn = js_or (data_phone phoneData) [];
               s2 = (if phn \<noteq> []
                     then (let s' = s1\<lparr>var_phonesFound := var_phonesFound s1 + 1\<rparr>
                           in broadcast [Set_phonesFound (var_phonesFound s')] s')
                     else s1)
           in (Returned phn, sleep DELAY_MS s2))
      | (Thrown e, tr1) \<Rightarrow> (Thrown e, s\<lparr>rs_trace := tr1\<rparr>)
      | (OutOfFuel, tr1) \<Rightarrow> (OutOfFuel, s\<lparr>rs_trace := tr1\<rparr>))"

text \<open>The block \<^verbatim>\<open>if (liUrl) { ... }\<close>. Returns email, email status and phone.\<close>

definition lookups ::
  "net \<Rightarrow> string \<Rightarrow> bool \<Rightarrow> string \<Rightarrow> run_state \<Rightarrow> (string \<times> string \<times> string) result \<times> run_state" where
  "lookups nt key skip liUrl s =
     (if liUrl \<noteq> [] then
        (case email_step nt key liUrl s of
           (Returned (eml, emailStatus), s1) \<Rightarrow>
             (if \<not> skip then
                (case phone_step nt key liUrl s1 of
                   (Returned phn, s2) \<Rightarrow> (Returned (eml, emailStatus, phn), s2)
                 | (Thrown e, s2) \<Rightarrow> (Thrown e, s2)
                 | (OutOfFuel, s2) \<Rightarrow> (OutOfFuel, s2))
              else (Returned (eml, emailStatus, []), s1))
         | (Thrown e, s1) \<Rightarrow> (Thrown e, s1)
         | (OutOfFuel, s1) \<Rightarrow> (OutOfFuel, s1))
      else (Returned ([], [], []), s))"

definition empty_location :: location where
  "empty_location = \<lparr>loc_city = None, loc_state_code = None, loc_country_code = None\<rparr>"

text \<open>
  The body of \<^verbatim>\<open>for (const emp of employees)\<close>. The connection count is a
  number, and \<^verbatim>\<open>emp.connections_count || ''\<close> is the empty string for an absent
  count and for 0: both are \<open>None\<close> in the result row.
\<close>

definition enrich_employee ::
  "net \<Rightarrow> string \<Rightarrow> bool \<Rightarrow> company \<Rightarrow> employee \<Rightarrow> run_state \<Rightarrow> unit result \<times> run_state" where
  "enrich_employee nt key skip co emp s =
     (let liUrl = js_or (emp_linkedin_url emp) [];
          loc = (case emp_location emp of None \<Rightarrow> empty_location | Some l \<Rightarrow> l);
          experiences = (case emp_experiences emp of None \<Rightarrow> [] | Some es \<Rightarrow> es);
          currentExp = getCurrentExperience experiences (companyUrl co);
          jobTitle = js_or (exp_job_title currentExp) (js_or (emp_headline emp) [])
      in case lookups nt key skip liUrl s of
           (Returned (eml, emailStatus, phn), s1) \<Rightarrow>
             (Returned (),
              s1\<lparr>rs_job := (rs_job s1)\<lparr>results := results (rs_job s1) @
                 [\<lparr>company_name = companyName co,
                   company_linkedin_url = companyUrl co,
                   company_domain = companyDomain co,
                   company_location = companyLocation co,
                   company_size = companySize co,
                   full_name = js_or (emp_full_name emp) [],
                   first_name = js_or (emp_first_name emp) [],
                   last_name = js_or (emp_last_name emp) [],
                   job_title = jobTitle,
                   headline = js_or (emp_headline emp) [],
                   person_linkedin_url = liUrl,
                   city = js_or (loc_city loc) [],
                   state = js_or (loc_state_code loc) [],
                   country = js_or (loc_country_code loc) [],
                   email = eml,
                   email_status = emailStatus,
                   phone_mobile = phn,
                   connections_count =
                     (case emp_connections_count emp of None \<Rightarrow> None
                      | Some n \<Rightarrow> if n = 0 then None else Some n)\<rparr>]\<rparr>\<rparr>)
         | (Thrown e, s1) \<Rightarrow> (Thrown e, s1)
         | (OutOfFuel, s1) \<Rightarrow> (OutOfFuel, s1))"

fun enrich_employees ::
  "net \<Rightarrow> string \<Rightarrow> bool \<Rightarrow> company \<Rightarrow> employee list \<Rightarrow> run_state \<Rightarrow> unit result \<times> run_state" where
  "enrich_employees nt key skip co [] s = (Returned (), s)"
| "enrich_employees nt key skip co (emp # emps) s =
     (case enrich_employee nt key skip co emp s of
        (Returned u, s1) \<Rightarrow> enrich_employees nt key skip co emps s1
      | (Thrown e, s1) \<Rightarrow> (Thrown e, s1)
      | (OutOfFuel, s1) \<Rightarrow> (OutOfFuel, s1))"

subsection \<open>runEnrichment: the rows\<close>

text \<open>\<^verbatim>\<open>row[col] || ''\<close>\<close>

definition cell :: "row \<Rightarrow> string \<Rightarrow> string" where
  "cell rw col = js_or (rw col) []"

text \<open>\<^verbatim>\<open>col ? (row[col] || '') : dflt\<close> for a column that may not have been detected.\<close>

definition optional_cell :: "row \<Rightarrow> string option \<Rightarrow> string \<Rightarrow> string" where
  "optional_cell rw col dflt =
     (case col of None \<Rightarrow> dflt | Some c \<Rightarrow> if c = [] then dflt else cell rw c)"

definition row_company :: "job \<Rightarrow> row \<Rightarrow> company" where
  "row_company j rw =
     (let url = js_trim (cell rw (linkedinCol j))
      in \<lparr>companyUrl = url,
          companyName = optional_cell rw (nameCol j) url,
          companyDomain = optional_cell rw (domainCol j) [],
          companyLocation = optional_cell rw (locationCol j) [],
          companySize = optional_cell rw (sizeCol j) []\<rparr>)"

text \<open>
  The body of the loop over the rows at index \<open>i\<close>. The job \<open>j\<close> stands for the constants
  that \<^verbatim>\<open>runEnrichment\<close> reads from the job once, at its start.
\<close>

definition process_row ::
  "nat \<Rightarrow> net \<Rightarrow> job \<Rightarrow> nat \<Rightarrow> row \<Rightarrow> run_state \<Rightarrow> unit result \<times> run_state" where
  "process_row fuel nt j i rw s =
     (let co = row_company j rw;
          s1 = broadcast [Set_companyCurrent (i + 1),
                          Set_currentCompanyName
                            (if companyName co \<noteq> [] then companyName co else companyUrl co)] s
      in if companyUrl co = [] then (Returned (), s1)
         else
           (case findAllEmployees fuel nt (companyUrl co) (apiKey j) (rs_trace s1) of
              (Returned employees, tr1) \<Rightarrow>
                (let s2 = s1\<lparr>rs_trace := tr1,
                             var_employeesFound := var_employeesFound s1 + length employees\<rparr>;
                     s3 = broadcast [Set_employeesFound (var_employeesFound s2)] s2
                 in enrich_employees nt (apiKey j) (skipPhone j) co employees s3)
            | (Thrown e, tr1) \<Rightarrow> (Thrown e, s1\<lparr>rs_trace := tr1\<rparr>)
            | (OutOfFuel, tr1) \<Rightarrow> (OutOfFuel, s1\<lparr>rs_trace := tr1\<rparr>)))"

fun process_rows ::
  "nat \<Rightarrow> net \<Rightarrow> job \<Rightarrow> nat \<Rightarrow> row list \<Rightarrow> run_state \<Rightarrow> unit result \<times> run_state" where
  "process_rows fuel nt j i [] s = (Returned (), s)"
| "process_rows fuel nt j i (rw # rest) s =
     (case process_row fuel nt j i rw s of
        (Returned u, s1) \<Rightarrow> process_rows fuel nt j (i + 1) rest s1
      | (Thrown e, s1) \<Rightarrow> (Thrown e, s1)
      | (OutOfFuel, s1) \<Rightarrow> (OutOfFuel, s1))"

definition initial_state :: "job \<Rightarrow> run_state" where
  "initial_state j =
     \<lparr>rs_job = j, var_employeesFound = 0, var_emailsFound = 0, var_phonesFound = 0, rs_trace = []\<rparr>"

definition runEnrichment :: "nat \<Rightarrow> net \<Rightarrow> job \<Rightarrow> unit result \<times> run_state" where
  "runEnrichment fuel nt j =
     (let s0 = broadcast [Set_phase Enriching] (initial_state j)
      in case process_rows fuel nt j 0 (rows j) s0 of
           (Returned u, s1) \<Rightarrow>
             (Returned (),
              broadcast [Set_phase Done, Set_done True,
                         Set_employeesFound (var_employeesFound s1),
                         Set_emailsFound (var_emailsFound s1),
                         Set_phonesFound (var_phonesFound s1)] s1)
         | (Thrown e, s1) \<Rightarrow> (Thrown e, s1)
         | (OutOfFuel, s1) \<Rightarrow> (OutOfFuel, s1))"

text \<open>
  \<^verbatim>\<open>runEnrichment(job).catch(err => broadcast(job, {phase: 'error', ...}))\<close>, as the
  upload handler starts it.
\<close>

definition start_job :: "nat \<Rightarrow> net \<Rightarrow> job \<Rightarrow> unit result \<times> run_state" where
  "start_job fuel nt j =
     (case runEnrichment fuel nt j of
        (Thrown e, s) \<Rightarrow> (Returned (), broadcast [Set_phase Error, Set_error e, Set_done True] s)
      | other \<Rightarrow> other)"

subsection \<open>The download handler\<close>

datatype 'a http = Http_error nat string | Http_ok 'a

text \<open>The table is returned as its rows; writing them as CSV is left to the library.\<close>

definition download :: "(string \<Rightarrow> job option) \<Rightarrow> string \<Rightarrow> result_row list http" where
  "download jobs jobId =
     (case jobs jobId of
        None \<Rightarrow> Http_error 404 ''Job not found or expired''
      | Some j \<Rightarrow>
          if \<not> done_flag (status j) then Http_error 400 ''Enrichment not complete yet''
          else Http_ok (results j))"

subsection \<open>Reading a trace\<close>

fun snapshots :: "event list \<Rightarrow> status list" where
  "snapshots [] = []"
| "snapshots (Publish st # tr) = st # snapshots tr"
| "snapshots (e # tr) = snapshots tr"

fun fetches :: "event list \<Rightarrow> (string \<times> req_body) list" where
  "fetches [] = []"
| "fetches (Fetch endpoint body key # tr) = (endpoint, body) # fetches tr"
| "fetches (e # tr) = fetches tr"

fun sleeps :: "event list \<Rightarrow> nat list" where
  "sleeps [] = []"
| "sleeps (Sleep ms # tr) = ms # sleeps tr"
| "sleeps (e # tr) = sleeps tr"

subsection \<open>Outcomes and providers used in the statements\<close>

text \<open>
  A failure that is neither a rate limit nor a missing record: the request is rejected, the
  status is not a success status, or the body of a success is not JSON.
\<close>

definition hard_failure :: "fetch_outcome \<Rightarrow> bool" where
  "hard_failure out =
     (case out of
        Rejected \<Rightarrow> True
      | Response st bd \<Rightarrow> st \<noteq> 429 \<and> st \<noteq> 422 \<and> st \<noteq> 404 \<and> (\<not> response_ok st \<or> bd = None))"

definition success :: "fetch_outcome \<Rightarrow> bool" where
  "success out = (case out of Rejected \<Rightarrow> False | Response st bd \<Rightarrow> response_ok st \<and> bd \<noteq> None)"

text \<open>The events \<^verbatim>\<open>blitzPost\<close> adds for one request: that request, and waits.\<close>

definition client_events :: "string \<Rightarrow> req_body \<Rightarrow> string \<Rightarrow> event list \<Rightarrow> bool" where
  "client_events ep b k ext = (\<forall>e \<in> set ext. e = Fetch ep b k \<or> (\<exists>ms. e = Sleep ms))"

text \<open>A provider that gives the same outcome to every request.\<close>

definition net_always :: "fetch_outcome \<Rightarrow> net" where
  "net_always out tr endpoint body key = out"

text \<open>A response body that carries an email.\<close>

definition email_reply :: json where
  "email_reply =
     JObject \<lparr>data_results = None, data_email = Some ''ann@acme.test'',
              data_email_status = Some ''valid'', data_phone = None\<rparr>"

text \<open>A provider that limits the first \<open>n\<close> requests and answers \<open>j\<close> from then on.\<close>

definition net_limited :: "nat \<Rightarrow> json \<Rightarrow> net" where
  "net_limited n j tr endpoint body key =
     (if length (fetches tr) < n then Response 429 None else Response 200 (Some j))"

text \<open>
  A provider that holds the employee records \<open>recs\<close> of a company and serves them in
  pages of the size requested; a lookup by person finds nothing.
\<close>

definition paged_provider :: "employee list \<Rightarrow> net" where
  "paged_provider recs tr endpoint body key =
     (case body of
        SearchBody url max_results page \<Rightarrow>
          Response 200 (Some (JObject
            \<lparr>data_results = Some (take max_results (drop ((page - 1) * max_results) recs)),
             data_email = None, data_email_status = None, data_phone = None\<rparr>))
      | PersonBody url \<Rightarrow> Response 200 (Some empty_object))"

subsection \<open>Pagination\<close>

text \<open>
  The provider holds the records \<open>recs\<close> of the company \<open>url\<close>: whatever has happened
  before, it answers the search for a page with a success whose results are that page of
  \<open>recs\<close>.
\<close>

definition serves_pages :: "net \<Rightarrow> string \<Rightarrow> string \<Rightarrow> employee list \<Rightarrow> bool" where
  "serves_pages nt url key recs =
     (\<forall>t page. \<exists>st d.
         nt t ''/v2/search/employee-finder'' (SearchBody url PAGE_SIZE page) key
           = Response st (Some (JObject d))
         \<and> response_ok st
         \<and> data_results d = Some (take PAGE_SIZE (drop ((page - 1) * PAGE_SIZE) recs)))"

text \<open>The search requests for the pages \<open>first_page\<close> to \<open>last_page\<close>, in order.\<close>

definition page_requests :: "string \<Rightarrow> nat \<Rightarrow> nat \<Rightarrow> (string \<times> req_body) list" where
  "page_requests url first_page last_page =
     map (\<lambda>p. (''/v2/search/employee-finder'', SearchBody url PAGE_SIZE p)) [first_page ..< Suc last_page]"

text \<open>
  The number of pages as the specification states it: the ceiling of \<open>n / PAGE_SIZE\<close>, and
  one more when \<open>n\<close> is a positive multiple of the page size.
\<close>

definition spec_pages_fetched :: "nat \<Rightarrow> nat" where
  "spec_pages_fetched n =
     (if 0 < n \<and> PAGE_SIZE dvd n then (n + PAGE_SIZE - 1) div PAGE_SIZE + 1
      else (n + PAGE_SIZE - 1) div PAGE_SIZE)"

text \<open>An employee record with a name and, when \<open>url\<close> is not empty, a profile URL.\<close>

definition employee_named :: "string \<Rightarrow> string \<Rightarrow> employee" where
  "employee_named nm url =
     \<lparr>emp_linkedin_url = (if url = [] then None else Some url), emp_location = None,
      emp_experiences = None, emp_headline = None, emp_full_name = Some nm,
      emp_first_name = None, emp_last_name = None, emp_connections_count = None\<rparr>"

subsection \<open>The experience resolver as the specification words it\<close>

text \<open>
  The text that follows the first occurrence of the marker \<open>m\<close>, if there is one.
\<close>

fun after_marker :: "string \<Rightarrow> string \<Rightarrow> string option" where
  "after_marker m [] = (if m = [] then Some [] else None)"
| "after_marker m (c # cs) =
     (if prefix m (c # cs) then Some (drop (length m) (c # cs)) else after_marker m cs)"

text \<open>
  The path segment following \<^verbatim>\<open>/company/\<close> in a URL: a path segment ends at the next
  slash, or where the query or the fragment begins.
\<close>

definition spec_path_segment :: "string \<Rightarrow> string option" where
  "spec_path_segment url =
     map_option (takeWhile (\<lambda>c. c \<notin> set ''/?#'')) (after_marker ''/company/'' url)"

definition spec_match :: "string \<Rightarrow> experience \<Rightarrow> bool" where
  "spec_match url exp =
     (exp_job_is_current exp \<and>
      (case spec_path_segment url of
         None \<Rightarrow> False
       | Some seg \<Rightarrow> js_includes (js_or (exp_company_linkedin_url exp) []) seg))"

text \<open>
  The four rules of the specification, in its order: the first current entry whose company
  identifier contains the path segment; else the first current entry; else the first
  entry; else the empty placeholder.
\<close>

definition spec_resolve :: "experience list \<Rightarrow> string \<Rightarrow> experience" where
  "spec_resolve history url =
     (case find (spec_match url) history of
        Some exp \<Rightarrow> exp
      | None \<Rightarrow>
          (case find exp_job_is_current history of
             Some exp \<Rightarrow> exp
           | None \<Rightarrow> (case history of [] \<Rightarrow> empty_experience | exp # rest \<Rightarrow> exp)))"

definition experience_at :: "bool \<Rightarrow> string \<Rightarrow> string \<Rightarrow> experience" where
  "experience_at cur url title =
     \<lparr>exp_job_is_current = cur, exp_company_linkedin_url = Some url, exp_job_title = Some title\<rparr>"

text \<open>A work history with two current positions.\<close>

definition two_jobs :: "experience list" where
  "two_jobs =
     [experience_at True ''https://www.linkedin.com/company/other'' ''CFO'',
      experience_at True ''https://www.linkedin.com/company/acme'' ''CEO'']"

subsection \<open>Reading a run\<close>

text \<open>The phone lookups among the requests of a trace.\<close>

definition phone_calls :: "event list \<Rightarrow> (string \<times> req_body) list" where
  "phone_calls tr = filter (\<lambda>(endpoint, body). endpoint = ''/v2/enrichment/phone'') (fetches tr)"

text \<open>No counter of the second snapshot is below the same counter of the first.\<close>

definition counters_le :: "status \<Rightarrow> status \<Rightarrow> bool" where
  "counters_le a b =
     (companyCurrent a \<le> companyCurrent b \<and> employeesFound a \<le> employeesFound b
      \<and> emailsFound a \<le> emailsFound b \<and> phonesFound a \<le> phonesFound b)"

subsection \<open>Invariants of a run\<close>

text \<open>
  An event that publishes nothing; with \<open>skip\<close> set, a request must not be a phone lookup.
\<close>

fun quiet_event :: "bool \<Rightarrow> event \<Rightarrow> bool" where
  "quiet_event skip (Fetch endpoint body key) = (skip \<longrightarrow> endpoint \<noteq> ''/v2/enrichment/phone'')"
| "quiet_event skip (Sleep ms) = True"
| "quiet_event skip (Publish st) = False"

definition quiet :: "bool \<Rightarrow> event list \<Rightarrow> bool" where
  "quiet skip ext = list_all (quiet_event skip) ext"

text \<open>
  \<open>preserved skip P\<close>: every step that \<^verbatim>\<open>runEnrichment\<close> takes keeps the property
  \<open>P\<close> of the state, where the index of \<open>P\<close> counts the rows begun. The steps are: requests
  and waits; a counted email or phone; a pushed result row; the employees found for a
  company; the start of the next row.
\<close>

definition preserved :: "bool \<Rightarrow> (nat \<Rightarrow> run_state \<Rightarrow> bool) \<Rightarrow> bool" where
  "preserved skip P =
     ((\<forall>i s ext. P i s \<and> quiet skip ext \<longrightarrow> P i (s\<lparr>rs_trace := rs_trace s @ ext\<rparr>))
    \<and> (\<forall>i s. P i s \<longrightarrow>
          P i (broadcast [Set_emailsFound (var_emailsFound s + 1)]
                 (s\<lparr>var_emailsFound := var_emailsFound s + 1\<rparr>)))
    \<and> (\<not> skip \<longrightarrow> (\<forall>i s. P i s \<longrightarrow>
          P i (broadcast [Set_phonesFound (var_phonesFound s + 1)]
                 (s\<lparr>var_phonesFound := var_phonesFound s + 1\<rparr>))))
    \<and> (\<forall>i s r. P i s \<longrightarrow> P i (s\<lparr>rs_job := (rs_job s)\<lparr>results := results (rs_job s) @ [r]\<rparr>\<rparr>))
    \<and> (\<forall>i s n. P i s \<longrightarrow>
          P i (broadcast [Set_employeesFound (var_employeesFound s + n)]
                 (s\<lparr>var_employeesFound := var_employeesFound s + n\<rparr>)))
    \<and> (\<forall>i s nm. P i s \<longrightarrow>
          P (i + 1) (broadcast [Set_companyCurrent (i + 1), Set_currentCompanyName nm] s)))"

text \<open>Under \<^verbatim>\<open>skipPhone\<close>: no phone lookup so far, and the phone counter is 0 everywhere.\<close>

definition no_phone :: "nat \<Rightarrow> run_state \<Rightarrow> bool" where
  "no_phone i s =
     (phone_calls (rs_trace s) = []
      \<and> (\<forall>x \<in> set (snapshots (rs_trace s)). phonesFound x = 0)
      \<and> phonesFound (status (rs_job s)) = 0 \<and> var_phonesFound s = 0)"

text \<open>Between the first broadcast and the last: every snapshot is in phase \<open>Enriching\<close>, not done.\<close>

definition running :: "nat \<Rightarrow> run_state \<Rightarrow> bool" where
  "running i s =
     ((\<forall>x \<in> set (snapshots (rs_trace s)). \<not> done_flag x \<and> phase x = Enriching)
      \<and> \<not> done_flag (status (rs_job s)) \<and> phase (status (rs_job s)) = Enriching)"

text \<open>
  The snapshots so far never decrease, the status is the latest of them and agrees with the
  local counters, and \<open>i\<close> rows have been begun out of \<open>n_rows\<close>.
\<close>

definition counting :: "nat \<Rightarrow> nat \<Rightarrow> run_state \<Rightarrow> bool" where
  "counting n_rows i s =
     (sorted_wrt counters_le (snapshots (rs_trace s))
      \<and> (\<forall>x \<in> set (snapshots (rs_trace s)). counters_le x (status (rs_job s)) \<and> companyTotal x = n_rows)
      \<and> employeesFound (status (rs_job s)) = var_employeesFound s
      \<and> emailsFound (status (rs_job s)) = var_emailsFound s
      \<and> phonesFound (status (rs_job s)) = var_phonesFound s
      \<and> companyCurrent (status (rs_job s)) = i
      \<and> companyTotal (status (rs_job s)) = n_rows)"

text \<open>The status of the job is the snapshot published last.\<close>

definition synced :: "nat \<Rightarrow> run_state \<Rightarrow> bool" where
  "synced i s =
     (snapshots (rs_trace s) \<noteq> [] \<and> status (rs_job s) = last (snapshots (rs_trace s)))"

text \<open>The trace \<open>tr\<close> is the beginning of the trace of the state.\<close>

definition extends_trace :: "event list \<Rightarrow> nat \<Rightarrow> run_state \<Rightarrow> bool" where
  "extends_trace tr i s = prefix tr (rs_trace s)"


subsection \<open>A sample table and provider\<close>

text \<open>A row of a table whose only column is the company URL.\<close>

definition table_row :: "string \<Rightarrow> row" where
  "table_row url = [''Company LinkedIn Url'' \<mapsto> url]"

definition demo_job :: "string list \<Rightarrow> string option \<Rightarrow> job" where
  "demo_job urls skipPhoneField =
     new_job ''job-1'' (map table_row urls) ''Company LinkedIn Url'' None None None None
       ''key'' skipPhoneField"

text \<open>
  A provider where every company has the employees Ann, with a profile URL, and Bob,
  without one; every person has an email and a phone; and the search for one company is
  answered with the JSON body \<^verbatim>\<open>null\<close>.
\<close>

definition demo_net :: net where
  "demo_net tr endpoint body key =
     (case body of
        SearchBody url max_results page \<Rightarrow>
          if url = ''https://www.linkedin.com/company/broken'' then Response 200 (Some JNull)
          else paged_provider
                 [employee_named ''Ann'' ''https://www.linkedin.com/in/ann'', employee_named ''Bob'' []]
                 tr endpoint body key
      | PersonBody url \<Rightarrow>
          if endpoint = ''/v2/enrichment/email''
          then Response 200 (Some (JObject
                 \<lparr>data_results = None, data_email = Some ''ann@acme.test'',
                  data_email_status = Some ''valid'', data_phone = None\<rparr>))
          else Response 200 (Some (JObject
                 \<lparr>data_results = None, data_email = None, data_email_status = None,
                  data_phone = Some ''555''\<rparr>)))"

text \<open>The job after a run that fails at its second company.\<close>

definition errored_job :: job where
  "errored_job =
     rs_job (snd (start_job 3 demo_net
       (demo_job [''https://www.linkedin.com/company/acme'',
                  ''https://www.linkedin.com/company/broken''] None)))"

section \<open>Properties\<close>

subsection \<open>Traces\<close>

lemma snapshots_append [simp]: "snapshots (a @ b) = snapshots a @ snapshots b"
  by (induction a rule: snapshots.induct) simp_all

lemma fetches_append [simp]: "fetches (a @ b) = fetches a @ fetches b"
  by (induction a rule: fetches.induct) simp_all

lemma sleeps_append [simp]: "sleeps (a @ b) = sleeps a @ sleeps b"
  by (induction a rule: sleeps.induct) simp_all

subsection \<open>The remote client\<close>

lemma attempt_body_shape:
  "\<exists>c ext. attempt_body nt ep b k retries attempt tr = (Returned c, tr @ Fetch ep b k # ext)
      \<and> (ext = [] \<or> (\<exists>ms. ext = [Sleep ms]))"
  by (auto simp: attempt_body_def attempt_try_def attempt_catch_def Let_def
           split: fetch_outcome.splits option.splits)

lemma blitzPost_from_shape:
  "\<exists>j ext. blitzPost_from nt ep b k retries attempt tr = (Returned j, tr @ ext)
      \<and> client_events ep b k ext \<and> length (fetches ext) \<le> Suc retries - attempt
      \<and> (attempt \<le> retries \<longrightarrow> prefix [Fetch ep b k] ext)"
proof (induction nt ep b k retries attempt tr rule: blitzPost_from.induct)
  case (1 nt ep b k retries attempt tr)
  show ?case
  proof (cases "attempt \<le> retries")
    case False
    then show ?thesis by (simp add: blitzPost_from.simps client_events_def)
  next
    case True
    obtain c ext where a: "attempt_body nt ep b k retries attempt tr = (Returned c, tr @ Fetch ep b k # ext)"
      and e: "ext = [] \<or> (\<exists>ms. ext = [Sleep ms])"
      using attempt_body_shape [of nt ep b k retries attempt tr] by blast
    show ?thesis
    proof (cases c)
      case (Return j)
      with a e True show ?thesis
        by (subst blitzPost_from.simps) (auto simp: client_events_def)
    next
      case Continue
      from "1" [OF True a [symmetric] refl Continue]
      obtain j ext2 where r: "blitzPost_from nt ep b k retries (attempt + 1) (tr @ Fetch ep b k # ext)
           = (Returned j, (tr @ Fetch ep b k # ext) @ ext2)"
        and c2: "client_events ep b k ext2" and l2: "length (fetches ext2) \<le> Suc retries - (attempt + 1)"
        by blast
      have "blitzPost_from nt ep b k retries attempt tr = (Returned j, tr @ (Fetch ep b k # ext @ ext2))"
        using a Continue True r by (subst blitzPost_from.simps) simp
      moreover have "client_events ep b k (Fetch ep b k # ext @ ext2)"
        using c2 e by (auto simp: client_events_def)
      moreover have "length (fetches (Fetch ep b k # ext @ ext2)) \<le> Suc retries - attempt"
        using l2 e True by auto
      ultimately show ?thesis by (intro exI [of _ j] exI [of _ "Fetch ep b k # ext @ ext2"]) simp
    qed
  qed
qed

lemma attempt_body_429:
  "nt tr ep b k = Response 429 bd \<Longrightarrow>
   attempt_body nt ep b k retries attempt tr =
     (Returned Continue, tr @ [Fetch ep b k, Sleep (min (1000 * 2 ^ attempt) 16000)])"
  by (simp add: attempt_body_def attempt_try_def)

lemma attempt_body_hard_failure:
  "hard_failure (nt tr ep b k) \<Longrightarrow> attempt < retries \<Longrightarrow>
   attempt_body nt ep b k retries attempt tr =
     (Returned Continue, tr @ [Fetch ep b k, Sleep (1000 * (attempt + 1))])"
  by (auto simp: attempt_body_def attempt_try_def attempt_catch_def hard_failure_def Let_def
           split: fetch_outcome.splits option.splits)

lemma attempt_body_hard_failure_last:
  "hard_failure (nt tr ep b k) \<Longrightarrow> \<not> attempt < retries \<Longrightarrow>
   attempt_body nt ep b k retries attempt tr = (Returned (Return empty_object), tr @ [Fetch ep b k])"
  by (auto simp: attempt_body_def attempt_try_def attempt_catch_def hard_failure_def Let_def
           split: fetch_outcome.splits option.splits)

lemma attempt_body_success:
  "nt tr ep b k = Response st (Some j) \<Longrightarrow> response_ok st \<Longrightarrow>
   attempt_body nt ep b k retries attempt tr = (Returned (Return j), tr @ [Fetch ep b k])"
  by (auto simp: attempt_body_def attempt_try_def response_ok_def)

lemma blitzPost_from_continue:
  "attempt \<le> retries \<Longrightarrow> attempt_body nt ep b k retries attempt tr = (Returned Continue, tr1) \<Longrightarrow>
   blitzPost_from nt ep b k retries attempt tr = blitzPost_from nt ep b k retries (attempt + 1) tr1"
  by (subst blitzPost_from.simps) simp

lemma blitzPost_from_return:
  "attempt \<le> retries \<Longrightarrow> attempt_body nt ep b k retries attempt tr = (Returned (Return j), tr1) \<Longrightarrow>
   blitzPost_from nt ep b k retries attempt tr = (Returned j, tr1)"
  by (subst blitzPost_from.simps) simp

lemma blitzPost_from_done:
  "\<not> attempt \<le> retries \<Longrightarrow> blitzPost_from nt ep b k retries attempt tr = (Returned empty_object, tr)"
  by (subst blitzPost_from.simps) simp

lemma blitzPost_from_starts_with_fetch:
  assumes "attempt \<le> retries"
  shows "prefix (tr @ [Fetch ep b k]) (snd (blitzPost_from nt ep b k retries attempt tr))"
proof -
  obtain j ext where "blitzPost_from nt ep b k retries attempt tr = (Returned j, tr @ ext)"
    and "prefix [Fetch ep b k] ext"
    using blitzPost_from_shape [of nt ep b k retries attempt tr] assms by blast
  then show ?thesis by simp
qed

text \<open>
  C4. When the first attempt of a call is answered with status 404 or 422, \<^verbatim>\<open>blitzPost\<close>
  returns the empty object at once: the trace grows by that one request, with no wait and
  no further attempt, and the call returns a value, it does not throw.
\<close>

theorem blitzPost_not_found:
  "nt tr ep b k = Response st bd \<and> (st = 404 \<or> st = 422) \<longrightarrow>
     blitzPost nt ep b k tr = (Returned empty_object, tr @ [Fetch ep b k])"
proof
  assume a: "nt tr ep b k = Response st bd \<and> (st = 404 \<or> st = 422)"
  then have "attempt_body nt ep b k 4 0 tr = (Returned (Return empty_object), tr @ [Fetch ep b k])"
    by (auto simp: attempt_body_def attempt_try_def)
  then show "blitzPost nt ep b k tr = (Returned empty_object, tr @ [Fetch ep b k])"
    unfolding blitzPost_def by (intro blitzPost_from_return) simp_all
qed

theorem blitzPost_not_found_witness:
  "blitzPost (net_always (Response 404 None)) ''/v2/enrichment/email'' (PersonBody ''u'') ''key'' []
     = (Returned empty_object, [Fetch ''/v2/enrichment/email'' (PersonBody ''u'') ''key''])"
  using blitzPost_not_found [of "net_always (Response 404 None)" "[]" "''/v2/enrichment/email''"
      "PersonBody ''u''" "''key''" 404 None]
  by (simp add: net_always_def)

text \<open>
  C3, amended. An attempt answered with status 429 is followed by a wait of
  \<open>min (1000 * 2 ^ attempt) 16000\<close> milliseconds; the request is then issued again when
  the attempt was not the fifth (\<open>attempt < 4\<close>, counting from 0), while a fifth attempt
  that is rate limited waits 16000 milliseconds and the call returns the empty object
  without another request. A call that is rate limited three times and then succeeds
  returns the parsed body, having waited 1000, 2000 and 4000 milliseconds.
\<close>

theorem blitzPost_rate_limited:
  "(attempt < 4 \<and> nt tr ep b k = Response 429 bd \<longrightarrow>
      prefix (tr @ [Fetch ep b k, Sleep (min (1000 * 2 ^ attempt) 16000), Fetch ep b k])
             (snd (blitzPost_from nt ep b k 4 attempt tr)))
   \<and> (nt tr ep b k = Response 429 bd \<longrightarrow>
        blitzPost_from nt ep b k 4 4 tr = (Returned empty_object, tr @ [Fetch ep b k, Sleep 16000]))
   \<and> (nt tr ep b k = Response 429 bd1
        \<and> nt (tr @ [Fetch ep b k, Sleep 1000]) ep b k = Response 429 bd2
        \<and> nt (tr @ [Fetch ep b k, Sleep 1000, Fetch ep b k, Sleep 2000]) ep b k = Response 429 bd3
        \<and> nt (tr @ [Fetch ep b k, Sleep 1000, Fetch ep b k, Sleep 2000, Fetch ep b k, Sleep 4000]) ep b k
            = Response st (Some j)
        \<and> response_ok st \<longrightarrow>
        blitzPost nt ep b k tr =
          (Returned j, tr @ [Fetch ep b k, Sleep 1000, Fetch ep b k, Sleep 2000,
                             Fetch ep b k, Sleep 4000, Fetch ep b k]))"
proof (intro conjI impI)
  assume a: "attempt < 4 \<and> nt tr ep b k = Response 429 bd"
  let ?tr1 = "tr @ [Fetch ep b k, Sleep (min (1000 * 2 ^ attempt) 16000)]"
  have "blitzPost_from nt ep b k 4 attempt tr = blitzPost_from nt ep b k 4 (attempt + 1) ?tr1"
    using a by (intro blitzPost_from_continue attempt_body_429) auto
  moreover have "prefix (?tr1 @ [Fetch ep b k]) (snd (blitzPost_from nt ep b k 4 (attempt + 1) ?tr1))"
    using a by (intro blitzPost_from_starts_with_fetch) simp
  ultimately show "prefix (tr @ [Fetch ep b k, Sleep (min (1000 * 2 ^ attempt) 16000), Fetch ep b k])
             (snd (blitzPost_from nt ep b k 4 attempt tr))"
    by simp
next
  assume a: "nt tr ep b k = Response 429 bd"
  have "blitzPost_from nt ep b k 4 4 tr =
          blitzPost_from nt ep b k 4 (4 + 1) (tr @ [Fetch ep b k, Sleep (min (1000 * 2 ^ (4::nat)) 16000)])"
    using a by (intro blitzPost_from_continue attempt_body_429) auto
  also have "\<dots> = (Returned empty_object, tr @ [Fetch ep b k, Sleep (min (1000 * 2 ^ (4::nat)) 16000)])"
    by (intro blitzPost_from_done) simp
  finally show "blitzPost_from nt ep b k 4 4 tr = (Returned empty_object, tr @ [Fetch ep b k, Sleep 16000])"
    by simp
next
  let ?F = "Fetch ep b k"
  assume a: "nt tr ep b k = Response 429 bd1
        \<and> nt (tr @ [?F, Sleep 1000]) ep b k = Response 429 bd2
        \<and> nt (tr @ [?F, Sleep 1000, ?F, Sleep 2000]) ep b k = Response 429 bd3
        \<and> nt (tr @ [?F, Sleep 1000, ?F, Sleep 2000, ?F, Sleep 4000]) ep b k = Response st (Some j)
        \<and> response_ok st"
  have step: "blitzPost_from nt ep b k 4 n t = blitzPost_from nt ep b k 4 (Suc n) (t @ [?F, Sleep (min (1000 * 2 ^ n) 16000)])"
    if "n \<le> 4" "nt t ep b k = Response 429 bd" for n t bd
    using that blitzPost_from_continue [OF _ attempt_body_429, of n 4 nt t ep b k bd] by simp
  have 1: "blitzPost_from nt ep b k 4 0 tr = blitzPost_from nt ep b k 4 (Suc 0) (tr @ [?F, Sleep 1000])"
    using a step [of 0 tr bd1] by simp
  have 2: "blitzPost_from nt ep b k 4 (Suc 0) (tr @ [?F, Sleep 1000])
             = blitzPost_from nt ep b k 4 (Suc (Suc 0)) (tr @ [?F, Sleep 1000, ?F, Sleep 2000])"
    using a step [of "Suc 0" "tr @ [?F, Sleep 1000]" bd2] by simp
  have 3: "blitzPost_from nt ep b k 4 (Suc (Suc 0)) (tr @ [?F, Sleep 1000, ?F, Sleep 2000])
             = blitzPost_from nt ep b k 4 (Suc (Suc (Suc 0))) (tr @ [?F, Sleep 1000, ?F, Sleep 2000, ?F, Sleep 4000])"
    using a step [of "Suc (Suc 0)" "tr @ [?F, Sleep 1000, ?F, Sleep 2000]" bd3] by simp
  have 4: "blitzPost_from nt ep b k 4 (Suc (Suc (Suc 0))) (tr @ [?F, Sleep 1000, ?F, Sleep 2000, ?F, Sleep 4000])
             = (Returned j, tr @ [?F, Sleep 1000, ?F, Sleep 2000, ?F, Sleep 4000, ?F])"
    using a blitzPost_from_return [OF _ attempt_body_success,
        of "Suc (Suc (Suc 0))" 4 nt "tr @ [?F, Sleep 1000, ?F, Sleep 2000, ?F, Sleep 4000]" ep b k st j]
    by simp
  show "blitzPost nt ep b k tr = (Returned j, tr @ [?F, Sleep 1000, ?F, Sleep 2000, ?F, Sleep 4000, ?F])"
    by (simp add: blitzPost_def 1 2 3 4)
qed

theorem blitzPost_rate_limited_witness:
  "prefix [Fetch ''/v2/enrichment/email'' (PersonBody ''u'') ''key'', Sleep 1000,
           Fetch ''/v2/enrichment/email'' (PersonBody ''u'') ''key'']
     (snd (blitzPost_from (net_limited 3 email_reply) ''/v2/enrichment/email'' (PersonBody ''u'') ''key'' 4 0 []))
   \<and> blitzPost_from (net_always (Response 429 None)) ''/v2/enrichment/email'' (PersonBody ''u'') ''key'' 4 4 []
       = (Returned empty_object, [Fetch ''/v2/enrichment/email'' (PersonBody ''u'') ''key'', Sleep 16000])
   \<and> blitzPost (net_limited 3 email_reply) ''/v2/enrichment/email'' (PersonBody ''u'') ''key'' []
       = (Returned email_reply,
          [Fetch ''/v2/enrichment/email'' (PersonBody ''u'') ''key'', Sleep 1000,
           Fetch ''/v2/enrichment/email'' (PersonBody ''u'') ''key'', Sleep 2000,
           Fetch ''/v2/enrichment/email'' (PersonBody ''u'') ''key'', Sleep 4000,
           Fetch ''/v2/enrichment/email'' (PersonBody ''u'') ''key''])"
  using blitzPost_rate_limited [where nt = "net_limited 3 email_reply" and tr = "[]"
          and ep = "''/v2/enrichment/email''" and b = "PersonBody ''u''" and k = "''key''"
          and attempt = 0 and bd = None and ?bd1.0 = None and ?bd2.0 = None and ?bd3.0 = None
          and st = 200 and j = email_reply]
        blitzPost_rate_limited [where nt = "net_always (Response 429 None)" and tr = "[]"
          and ep = "''/v2/enrichment/email''" and b = "PersonBody ''u''" and k = "''key''"
          and attempt = 0 and bd = None]
  by (simp add: net_limited_def net_always_def response_ok_def)

text \<open>
  C3 as stated fails at the fifth attempt: a provider that always answers 429 is asked five
  times, and the wait behind the fifth answer is followed by no request.
\<close>

theorem blitzPost_rate_limited_counterexample:
  "blitzPost (net_always (Response 429 None)) ''/v2/enrichment/email'' (PersonBody ''u'') ''key'' []
     = (Returned empty_object,
        [Fetch ''/v2/enrichment/email'' (PersonBody ''u'') ''key'', Sleep 1000,
         Fetch ''/v2/enrichment/email'' (PersonBody ''u'') ''key'', Sleep 2000,
         Fetch ''/v2/enrichment/email'' (PersonBody ''u'') ''key'', Sleep 4000,
         Fetch ''/v2/enrichment/email'' (PersonBody ''u'') ''key'', Sleep 8000,
         Fetch ''/v2/enrichment/email'' (PersonBody ''u'') ''key'', Sleep 16000])
   \<and> \<not> prefix [Fetch ''/v2/enrichment/email'' (PersonBody ''u'') ''key'', Sleep 16000,
                 Fetch ''/v2/enrichment/email'' (PersonBody ''u'') ''key'']
        (snd (blitzPost_from (net_always (Response 429 None)) ''/v2/enrichment/email''
                (PersonBody ''u'') ''key'' 4 4 []))"
  by (simp add: blitzPost_def blitzPost_from.simps attempt_body_def attempt_try_def net_always_def)

lemma attempt_body_no_success:
  "\<not> success (nt tr ep b k) \<Longrightarrow>
   (\<exists>tr1. attempt_body nt ep b k retries attempt tr = (Returned Continue, tr1)) \<or>
   (\<exists>tr1. attempt_body nt ep b k retries attempt tr = (Returned (Return empty_object), tr1))"
  by (auto simp: attempt_body_def attempt_try_def attempt_catch_def success_def Let_def
           split: fetch_outcome.splits option.splits)

lemma blitzPost_from_no_success:
  "\<forall>t. \<not> success (nt t ep b k) \<Longrightarrow>
   fst (blitzPost_from nt ep b k retries attempt tr) = Returned empty_object"
proof (induction nt ep b k retries attempt tr rule: blitzPost_from.induct)
  case (1 nt ep b k retries attempt tr)
  show ?case
  proof (cases "attempt \<le> retries")
    case False
    then show ?thesis by (simp add: blitzPost_from_done)
  next
    case True
    from "1.prems" have ns: "\<not> success (nt tr ep b k)" by simp
    from attempt_body_no_success [of nt tr ep b k retries attempt] ns
    have "(\<exists>tr1. attempt_body nt ep b k retries attempt tr = (Returned Continue, tr1)) \<or>
          (\<exists>tr1. attempt_body nt ep b k retries attempt tr = (Returned (Return empty_object), tr1))"
      by simp
    then show ?thesis
    proof (elim disjE exE)
      fix tr1 assume a: "attempt_body nt ep b k retries attempt tr = (Returned Continue, tr1)"
      from "1.IH" [OF True a [symmetric] refl refl "1.prems"] blitzPost_from_continue [OF True a]
      show ?thesis by simp
    next
      fix tr1 assume a: "attempt_body nt ep b k retries attempt tr = (Returned (Return empty_object), tr1)"
      from blitzPost_from_return [OF True a] show ?thesis by simp
    qed
  qed
qed

lemma blitzPost_all_hard_failures:
  assumes h: "\<forall>t. hard_failure (nt t ep b k)"
  shows "blitzPost nt ep b k tr =
     (Returned empty_object,
      tr @ [Fetch ep b k, Sleep 1000, Fetch ep b k, Sleep 2000, Fetch ep b k, Sleep 3000,
            Fetch ep b k, Sleep 4000, Fetch ep b k])"
proof -
  let ?F = "Fetch ep b k"
  have step: "blitzPost_from nt ep b k 4 n t = blitzPost_from nt ep b k 4 (Suc n) (t @ [?F, Sleep (1000 * (n + 1))])"
    if "n < 4" for n t
    using that h blitzPost_from_continue [OF _ attempt_body_hard_failure, of n 4 nt t ep b k] by simp
  have last: "blitzPost_from nt ep b k 4 (Suc (Suc (Suc (Suc 0)))) t = (Returned empty_object, t @ [?F])" for t
    using h blitzPost_from_return [OF _ attempt_body_hard_failure_last, of "Suc (Suc (Suc (Suc 0)))" 4 nt t ep b k]
    by simp
  show ?thesis
    by (simp add: blitzPost_def step last)
qed

text \<open>
  C5. A call of \<^verbatim>\<open>blitzPost\<close> returns a value for every provider, after at most five
  requests, and never throws. A hard failure (a status that is neither a success nor 429,
  404 or 422, a rejected request, a timeout, a body that is not JSON) on an attempt before
  the fifth is followed by a wait of \<open>1000 * (attempt + 1)\<close> milliseconds and another
  request. When no attempt succeeds the call returns the empty object; when all five
  attempts are hard failures it has waited 1000, 2000, 3000 and 4000 milliseconds.
\<close>

theorem blitzPost_never_raises:
  "(\<exists>j tr1. blitzPost nt ep b k tr = (Returned j, tr1)
        \<and> length (fetches tr1) \<le> length (fetches tr) + 5)
   \<and> (attempt < 4 \<and> hard_failure (nt tr ep b k) \<longrightarrow>
        prefix (tr @ [Fetch ep b k, Sleep (1000 * (attempt + 1)), Fetch ep b k])
               (snd (blitzPost_from nt ep b k 4 attempt tr)))
   \<and> ((\<forall>t. \<not> success (nt t ep b k)) \<longrightarrow> fst (blitzPost nt ep b k tr) = Returned empty_object)
   \<and> ((\<forall>t. hard_failure (nt t ep b k)) \<longrightarrow>
        blitzPost nt ep b k tr =
          (Returned empty_object,
           tr @ [Fetch ep b k, Sleep 1000, Fetch ep b k, Sleep 2000, Fetch ep b k, Sleep 3000,
                 Fetch ep b k, Sleep 4000, Fetch ep b k]))"
proof (intro conjI impI)
  obtain j ext where "blitzPost_from nt ep b k 4 0 tr = (Returned j, tr @ ext)"
    and "length (fetches ext) \<le> Suc 4 - 0"
    using blitzPost_from_shape [of nt ep b k 4 0 tr] by blast
  then show "\<exists>j tr1. blitzPost nt ep b k tr = (Returned j, tr1)
        \<and> length (fetches tr1) \<le> length (fetches tr) + 5"
    by (simp add: blitzPost_def)
next
  assume a: "attempt < 4 \<and> hard_failure (nt tr ep b k)"
  let ?tr1 = "tr @ [Fetch ep b k, Sleep (1000 * (attempt + 1))]"
  have "blitzPost_from nt ep b k 4 attempt tr = blitzPost_from nt ep b k 4 (attempt + 1) ?tr1"
    using a by (intro blitzPost_from_continue attempt_body_hard_failure) auto
  moreover have "prefix (?tr1 @ [Fetch ep b k]) (snd (blitzPost_from nt ep b k 4 (attempt + 1) ?tr1))"
    using a by (intro blitzPost_from_starts_with_fetch) simp
  ultimately show "prefix (tr @ [Fetch ep b k, Sleep (1000 * (attempt + 1)), Fetch ep b k])
               (snd (blitzPost_from nt ep b k 4 attempt tr))"
    by simp
next
  assume "\<forall>t. \<not> success (nt t ep b k)"
  then show "fst (blitzPost nt ep b k tr) = Returned empty_object"
    unfolding blitzPost_def by (rule blitzPost_from_no_success)
next
  assume "\<forall>t. hard_failure (nt t ep b k)"
  then show "blitzPost nt ep b k tr =
          (Returned empty_object,
           tr @ [Fetch ep b k, Sleep 1000, Fetch ep b k, Sleep 2000, Fetch ep b k, Sleep 3000,
                 Fetch ep b k, Sleep 4000, Fetch ep b k])"
    by (rule blitzPost_all_hard_failures)
qed

theorem blitzPost_never_raises_witness:
  "prefix [Fetch ''/v2/enrichment/phone'' (PersonBody ''u'') ''key'', Sleep 1000,
           Fetch ''/v2/enrichment/phone'' (PersonBody ''u'') ''key'']
     (snd (blitzPost_from (net_always Rejected) ''/v2/enrichment/phone'' (PersonBody ''u'') ''key'' 4 0 []))
   \<and> blitzPost (net_always Rejected) ''/v2/enrichment/phone'' (PersonBody ''u'') ''key'' []
       = (Returned empty_object,
          [Fetch ''/v2/enrichment/phone'' (PersonBody ''u'') ''key'', Sleep 1000,
           Fetch ''/v2/enrichment/phone'' (PersonBody ''u'') ''key'', Sleep 2000,
           Fetch ''/v2/enrichment/phone'' (PersonBody ''u'') ''key'', Sleep 3000,
           Fetch ''/v2/enrichment/phone'' (PersonBody ''u'') ''key'', Sleep 4000,
           Fetch ''/v2/enrichment/phone'' (PersonBody ''u'') ''key''])"
  using blitzPost_never_raises [where nt = "net_always Rejected" and tr = "[]"
          and ep = "''/v2/enrichment/phone''" and b = "PersonBody ''u''" and k = "''key''"
          and attempt = 0]
  by (simp add: net_always_def hard_failure_def success_def)

lemma blitzPost_success:
  "nt tr ep b k = Response st (Some j) \<Longrightarrow> response_ok st \<Longrightarrow>
   blitzPost nt ep b k tr = (Returned j, tr @ [Fetch ep b k])"
  unfolding blitzPost_def by (intro blitzPost_from_return attempt_body_success) simp_all

subsection \<open>The pagination driver\<close>

lemma ceil_div:
  fixes n p :: nat
  assumes "0 < p"
  shows "(n + p - 1) div p = (if p dvd n then n div p else n div p + 1)"
proof (cases "p dvd n")
  case True
  then obtain k where k: "n = p * k" by (auto simp: dvd_def)
  have "(p * k + p - 1) div p = k"
    using assms by (intro div_nat_eqI) (auto simp: algebra_simps)
  with True k assms show ?thesis by simp
next
  case False
  define k where "k = n div p"
  define r where "r = n mod p"
  have n: "n = k * p + r" by (simp add: k_def r_def)
  have r: "0 < r" "r < p" using False assms by (auto simp: r_def dvd_eq_mod_eq_0)
  have "(k * p + r + p - 1) div p = k + 1"
    using r by (intro div_nat_eqI) (auto simp: algebra_simps)
  then have "(n + p - 1) div p = k + 1" by (simp only: n)
  then show ?thesis using False by (simp add: k_def)
qed

lemma PAGE_SIZE_pos: "0 < PAGE_SIZE"
  by (simp add: PAGE_SIZE_def)

lemma findAllEmployees_loop_short:
  "blitzPost nt ''/v2/search/employee-finder'' (SearchBody url PAGE_SIZE page) key tr
     = (Returned (JObject d), tr1) \<Longrightarrow>
   data_results d = Some pg \<Longrightarrow> length pg < PAGE_SIZE \<Longrightarrow>
   findAllEmployees_loop (Suc fuel) nt url key acc page tr = (Returned (acc @ pg), tr1)"
  by simp

lemma findAllEmployees_loop_full:
  "blitzPost nt ''/v2/search/employee-finder'' (SearchBody url PAGE_SIZE page) key tr
     = (Returned (JObject d), tr1) \<Longrightarrow>
   data_results d = Some pg \<Longrightarrow> \<not> length pg < PAGE_SIZE \<Longrightarrow>
   findAllEmployees_loop (Suc fuel) nt url key acc page tr
     = findAllEmployees_loop fuel nt url key (acc @ pg) (page + 1) (tr1 @ [Sleep DELAY_MS])"
  by simp

lemma findAllEmployees_loop_pages:
  assumes sp: "serves_pages nt url key recs"
  shows "q \<le> length recs div PAGE_SIZE \<Longrightarrow> length recs div PAGE_SIZE - q < fuel \<Longrightarrow>
    \<exists>tr1. findAllEmployees_loop fuel nt url key (take (q * PAGE_SIZE) recs) (q + 1) tr = (Returned recs, tr1)
       \<and> fetches tr1 = fetches tr @ page_requests url (q + 1) (length recs div PAGE_SIZE + 1)"
proof (induction fuel arbitrary: q tr)
  case 0
  then show ?case by simp
next
  case (Suc fuel)
  let ?P = PAGE_SIZE
  let ?N = "length recs"
  let ?ep = "''/v2/search/employee-finder''"
  let ?b = "SearchBody url ?P (q + 1)"
  let ?page = "take ?P (drop (q * ?P) recs)"
  obtain st d where r: "nt tr ?ep ?b key = Response st (Some (JObject d))"
    and ok: "response_ok st" and d: "data_results d = Some ?page"
    using sp unfolding serves_pages_def by (metis add_diff_cancel_right')
  have bp: "blitzPost nt ?ep ?b key tr = (Returned (JObject d), tr @ [Fetch ?ep ?b key])"
    using r ok by (rule blitzPost_success)
  show ?case
  proof (cases "q < ?N div ?P")
    case True
    then have "(q + 1) * ?P \<le> ?N div ?P * ?P" by (intro mult_le_mono1) simp
    also have "\<dots> \<le> ?N" by simp
    finally have full: "(q + 1) * ?P \<le> ?N" .
    then have len: "length ?page = ?P" by (auto simp: min_def)
    have "take (q * ?P + ?P) recs = take (q * ?P) recs @ ?page"
      by (rule take_add)
    then have acc: "take (q * ?P) recs @ ?page = take ((q + 1) * ?P) recs"
      by (simp add: add.commute)
    from True Suc.prems have "q + 1 \<le> ?N div ?P" "?N div ?P - (q + 1) < fuel" by auto
    from Suc.IH [OF this, of "tr @ [Fetch ?ep ?b key, Sleep DELAY_MS]"]
    obtain tr1 where
      "findAllEmployees_loop fuel nt url key (take ((q + 1) * ?P) recs) (q + 1 + 1)
          (tr @ [Fetch ?ep ?b key, Sleep DELAY_MS]) = (Returned recs, tr1)"
      and "fetches tr1 = fetches (tr @ [Fetch ?ep ?b key, Sleep DELAY_MS])
              @ page_requests url (q + 1 + 1) (?N div ?P + 1)"
      by blast
    moreover have "page_requests url (q + 1) (?N div ?P + 1)
        = (?ep, ?b) # page_requests url (q + 1 + 1) (?N div ?P + 1)"
      using True by (simp add: page_requests_def upt_conv_Cons)
    moreover have "findAllEmployees_loop (Suc fuel) nt url key (take (q * ?P) recs) (q + 1) tr
        = findAllEmployees_loop fuel nt url key (take (q * ?P) recs @ ?page) (q + 1 + 1)
            ((tr @ [Fetch ?ep ?b key]) @ [Sleep DELAY_MS])"
      using bp d len by (intro findAllEmployees_loop_full) simp_all
    ultimately show ?thesis
      by (simp add: acc)
  next
    case False
    with Suc.prems have q: "q = ?N div ?P" by simp
    have "?N - q * ?P = ?N mod ?P" by (simp add: q minus_div_mult_eq_mod)
    then have short: "length ?page < ?P"
      using PAGE_SIZE_pos by (simp add: min_def)
    have "length (drop (q * ?P) recs) < ?P"
      using \<open>?N - q * ?P = ?N mod ?P\<close> PAGE_SIZE_pos by simp
    then have "?page = drop (q * ?P) recs" by simp
    then have acc: "take (q * ?P) recs @ ?page = recs" by simp
    have "page_requests url (q + 1) (?N div ?P + 1) = [(?ep, ?b)]"
      by (simp add: page_requests_def q)
    moreover have "findAllEmployees_loop (Suc fuel) nt url key (take (q * ?P) recs) (q + 1) tr
        = (Returned (take (q * ?P) recs @ ?page), tr @ [Fetch ?ep ?b key])"
      using bp d short by (rule findAllEmployees_loop_short)
    ultimately show ?thesis
      by (simp add: acc)
  qed
qed

text \<open>
  C2, amended. When the provider holds exactly \<open>N\<close> records of a company and serves them
  in pages of \<open>PAGE_SIZE\<close>, \<^verbatim>\<open>findAllEmployees\<close> returns all \<open>N\<close> records in order
  and requests the pages 1 to \<open>N div PAGE_SIZE + 1\<close>, each once and in order: the ceiling of
  \<open>N / PAGE_SIZE\<close> pages when \<open>N\<close> is not a multiple of the page size, and one more, an
  empty page, when it is a multiple, zero included. For every provider, a pass of the loop
  that gets a page shorter than \<open>PAGE_SIZE\<close> (an empty one included) returns what it
  has collected, and a pass that gets a full page waits and asks for the next page.
\<close>

theorem findAllEmployees_pages:
  "(serves_pages nt url key recs \<and> length recs div PAGE_SIZE < fuel \<longrightarrow>
     (\<exists>tr1. findAllEmployees fuel nt url key tr = (Returned recs, tr1)
        \<and> fetches tr1 = fetches tr @ page_requests url 1 (length recs div PAGE_SIZE + 1)
        \<and> length (fetches tr1) - length (fetches tr)
            = (if PAGE_SIZE dvd length recs
               then (length recs + PAGE_SIZE - 1) div PAGE_SIZE + 1
               else (length recs + PAGE_SIZE - 1) div PAGE_SIZE)))
   \<and> (blitzPost nt ''/v2/search/employee-finder'' (SearchBody url PAGE_SIZE page) key tr
          = (Returned (JObject d), tr2)
        \<and> data_results d = Some pg \<and> length pg < PAGE_SIZE \<longrightarrow>
        findAllEmployees_loop (Suc fuel) nt url key acc page tr = (Returned (acc @ pg), tr2))
   \<and> (blitzPost nt ''/v2/search/employee-finder'' (SearchBody url PAGE_SIZE page) key tr
          = (Returned (JObject d), tr2)
        \<and> data_results d = Some pg \<and> \<not> length pg < PAGE_SIZE \<longrightarrow>
        findAllEmployees_loop (Suc fuel) nt url key acc page tr
          = findAllEmployees_loop fuel nt url key (acc @ pg) (page + 1) (tr2 @ [Sleep DELAY_MS]))"
proof (intro conjI impI)
  assume a: "serves_pages nt url key recs \<and> length recs div PAGE_SIZE < fuel"
  let ?N = "length recs"
  from a have sp: "serves_pages nt url key recs" and fl: "?N div PAGE_SIZE - 0 < fuel" by simp_all
  from findAllEmployees_loop_pages [OF sp _ fl, of tr]
  obtain tr1 where "findAllEmployees_loop fuel nt url key (take (0 * PAGE_SIZE) recs) (0 + 1) tr = (Returned recs, tr1)"
    and "fetches tr1 = fetches tr @ page_requests url (0 + 1) (?N div PAGE_SIZE + 1)"
    by blast
  then have r: "findAllEmployees fuel nt url key tr = (Returned recs, tr1)"
    and f: "fetches tr1 = fetches tr @ page_requests url 1 (?N div PAGE_SIZE + 1)"
    by (simp_all add: findAllEmployees_def)
  have n: "length (fetches tr1) - length (fetches tr) = ?N div PAGE_SIZE + 1"
    by (simp add: f page_requests_def)
  have c: "(?N + PAGE_SIZE - 1) div PAGE_SIZE = (if PAGE_SIZE dvd ?N then ?N div PAGE_SIZE else ?N div PAGE_SIZE + 1)"
    by (rule ceil_div [OF PAGE_SIZE_pos])
  show "\<exists>tr1. findAllEmployees fuel nt url key tr = (Returned recs, tr1)
        \<and> fetches tr1 = fetches tr @ page_requests url 1 (length recs div PAGE_SIZE + 1)
        \<and> length (fetches tr1) - length (fetches tr)
            = (if PAGE_SIZE dvd length recs
               then (length recs + PAGE_SIZE - 1) div PAGE_SIZE + 1
               else (length recs + PAGE_SIZE - 1) div PAGE_SIZE)"
    using r f n c by (intro exI [of _ tr1]) simp
next
  assume "blitzPost nt ''/v2/search/employee-finder'' (SearchBody url PAGE_SIZE page) key tr
          = (Returned (JObject d), tr2)
        \<and> data_results d = Some pg \<and> length pg < PAGE_SIZE"
  then have "blitzPost nt ''/v2/search/employee-finder'' (SearchBody url PAGE_SIZE page) key tr
          = (Returned (JObject d), tr2)" "data_results d = Some pg" "length pg < PAGE_SIZE"
    by simp_all
  then show "findAllEmployees_loop (Suc fuel) nt url key acc page tr = (Returned (acc @ pg), tr2)"
    by (rule findAllEmployees_loop_short)
next
  assume "blitzPost nt ''/v2/search/employee-finder'' (SearchBody url PAGE_SIZE page) key tr
          = (Returned (JObject d), tr2)
        \<and> data_results d = Some pg \<and> \<not> length pg < PAGE_SIZE"
  then have "blitzPost nt ''/v2/search/employee-finder'' (SearchBody url PAGE_SIZE page) key tr
          = (Returned (JObject d), tr2)" "data_results d = Some pg" "\<not> length pg < PAGE_SIZE"
    by simp_all
  then show "findAllEmployees_loop (Suc fuel) nt url key acc page tr
          = findAllEmployees_loop fuel nt url key (acc @ pg) (page + 1) (tr2 @ [Sleep DELAY_MS])"
    by (rule findAllEmployees_loop_full)
qed

lemma paged_provider_serves: "serves_pages (paged_provider recs) url key recs"
  by (simp add: serves_pages_def paged_provider_def response_ok_def)

theorem findAllEmployees_pages_witness:
  "(\<exists>tr1. findAllEmployees 2 (paged_provider (replicate 50 (employee_named ''Ann'' []))) ''u'' ''k'' []
            = (Returned (replicate 50 (employee_named ''Ann'' [])), tr1)
         \<and> fetches tr1 = [(''/v2/search/employee-finder'', SearchBody ''u'' 50 1),
                          (''/v2/search/employee-finder'', SearchBody ''u'' 50 2)])
   \<and> findAllEmployees_loop (Suc 0) (paged_provider (replicate 50 (employee_named ''Ann'' []))) ''u'' ''k''
        (replicate 50 (employee_named ''Ann'' [])) 2 []
       = (Returned (replicate 50 (employee_named ''Ann'' [])),
          [Fetch ''/v2/search/employee-finder'' (SearchBody ''u'' 50 2) ''k''])
   \<and> findAllEmployees_loop (Suc (Suc 0)) (paged_provider (replicate 50 (employee_named ''Ann'' []))) ''u'' ''k''
        [] 1 []
       = findAllEmployees_loop (Suc 0) (paged_provider (replicate 50 (employee_named ''Ann'' []))) ''u'' ''k''
           (replicate 50 (employee_named ''Ann'' [])) 2
           [Fetch ''/v2/search/employee-finder'' (SearchBody ''u'' 50 1) ''k'', Sleep 150]"
proof -
  let ?R = "replicate 50 (employee_named ''Ann'' [])"
  let ?nt = "paged_provider ?R"
  let ?ep = "''/v2/search/employee-finder''"
  let ?d1 = "\<lparr>data_results = Some ?R, data_email = None, data_email_status = None, data_phone = None\<rparr>"
  let ?d2 = "\<lparr>data_results = Some ([] :: employee list), data_email = None, data_email_status = None, data_phone = None\<rparr>"
  have b1: "blitzPost ?nt ?ep (SearchBody ''u'' PAGE_SIZE 1) ''k'' []
      = (Returned (JObject ?d1), [] @ [Fetch ?ep (SearchBody ''u'' PAGE_SIZE 1) ''k''])"
    by (rule blitzPost_success [where st = 200]) (simp_all add: paged_provider_def response_ok_def PAGE_SIZE_def)
  have b2: "blitzPost ?nt ?ep (SearchBody ''u'' PAGE_SIZE 2) ''k'' []
      = (Returned (JObject ?d2), [] @ [Fetch ?ep (SearchBody ''u'' PAGE_SIZE 2) ''k''])"
    by (rule blitzPost_success [where st = 200]) (simp_all add: paged_provider_def response_ok_def PAGE_SIZE_def)
  note t0 = findAllEmployees_pages [where nt = ?nt and url = "''u''" and key = "''k''" and recs = ?R
          and fuel = 2 and tr = "[]"]
  note t1 = findAllEmployees_pages [where nt = ?nt and url = "''u''" and key = "''k''" and recs = ?R
          and tr = "[]" and page = 2 and d = ?d2 and pg = "[]" and acc = ?R
          and ?tr2.0 = "[Fetch ?ep (SearchBody ''u'' PAGE_SIZE 2) ''k'']" and fuel = 0]
  note t2 = findAllEmployees_pages [where nt = ?nt and url = "''u''" and key = "''k''" and recs = ?R
          and tr = "[]" and page = 1 and d = ?d1 and pg = ?R and acc = "[]"
          and ?tr2.0 = "[Fetch ?ep (SearchBody ''u'' PAGE_SIZE 1) ''k'']" and fuel = "Suc 0"]
  show ?thesis
    using t0 t1 t2 b1 b2 paged_provider_serves [of ?R "''u''" "''k''"]
    by (auto simp: page_requests_def PAGE_SIZE_def DELAY_MS_def upt_rec numeral_2_eq_2)
qed

text \<open>
  C2 as stated fails for a company without employees: the ceiling of \<open>0 / PAGE_SIZE\<close> is 0
  and 0 is not a positive multiple, but one page is requested.
\<close>

theorem findAllEmployees_pages_counterexample:
  "length (fetches (snd (findAllEmployees 1 (paged_provider []) ''u'' ''k'' [])))
     \<noteq> spec_pages_fetched (length ([] :: employee list))"
  by (simp add: findAllEmployees_def blitzPost_def blitzPost_from.simps attempt_body_def
        attempt_try_def paged_provider_def response_ok_def PAGE_SIZE_def spec_pages_fetched_def)

subsection \<open>The experience resolver\<close>

text \<open>
  What the slug is: when the URL, less one slash at its end, holds the marker
  \<^verbatim>\<open>/company/\<close> once, the slug is all the text behind the marker; when it does not hold
  the marker, the slug is the whole of it.
\<close>

lemma js_split_from_no_sep:
  "\<not> sublist sep s \<Longrightarrow> js_split_from sep piece s = [piece @ s]"
proof (induction s arbitrary: piece)
  case Nil
  then show ?case by (simp add: js_split_from.simps)
next
  case (Cons c cs)
  then have "\<not> prefix sep (c # cs)" "\<not> sublist sep cs"
    by (auto simp: sublist_Cons_right)
  with Cons.IH [of "piece @ [c]"] show ?case
    by (simp add: js_split_from.simps)
qed

lemma js_split_from_first:
  "sep \<noteq> [] \<Longrightarrow> \<not> sublist sep (pre @ butlast sep) \<Longrightarrow>
   js_split_from sep piece (pre @ sep @ rest) = (piece @ pre) # js_split_from sep [] rest"
proof (induction pre arbitrary: piece)
  case Nil
  then obtain c cs where "sep = c # cs" by (cases sep) auto
  then show ?case
    using js_split_from.simps(2) [of sep piece c "cs @ rest"] by simp
next
  case (Cons c pre)
  have "\<not> prefix sep (c # pre @ sep @ rest)"
  proof
    assume p: "prefix sep (c # pre @ sep @ rest)"
    have "c # pre @ sep @ rest = ((c # pre) @ butlast sep) @ (last sep # rest)"
      using Cons.prems(1) by simp
    moreover have "length sep \<le> length ((c # pre) @ butlast sep)" by simp
    ultimately have "prefix sep ((c # pre) @ butlast sep)"
      using p by (metis prefix_length_prefix prefixI)
    then have "sublist sep ((c # pre) @ butlast sep)" by (rule prefix_imp_sublist)
    with Cons.prems(2) show False by simp
  qed
  moreover have "\<not> sublist sep (pre @ butlast sep)"
    using Cons.prems(2) by (auto simp: sublist_Cons_right)
  ultimately show ?case
    using Cons.IH [of "piece @ [c]"] Cons.prems(1)
    by (simp add: js_split_from.simps)
qed

lemma company_slug_after_marker:
  assumes "strip_trailing_slash url = pre @ ''/company/'' @ rest"
    and "\<not> sublist ''/company/'' (pre @ ''/company'')"
    and "\<not> sublist ''/company/'' rest"
  shows "company_slug url = rest"
proof -
  have "js_split_from ''/company/'' [] (pre @ ''/company/'' @ rest)
          = ([] @ pre) # js_split_from ''/company/'' [] rest"
    using assms(2) by (intro js_split_from_first) simp_all
  also have "\<dots> = [pre, rest]"
    using assms(3) by (simp add: js_split_from_no_sep)
  finally show ?thesis
    using assms(1) by (simp add: company_slug_def js_split_def)
qed

lemma company_slug_no_marker:
  "\<not> sublist ''/company/'' (strip_trailing_slash url) \<Longrightarrow> company_slug url = strip_trailing_slash url"
  by (simp add: company_slug_def js_split_def js_split_from_no_sep)

lemma js_includes_iff_sublist: "js_includes s sub \<longleftrightarrow> sublist sub s"
  by (induction s) (auto simp: sublist_Cons_right)

lemma slug_match_iff:
  "slug_match slug e \<longleftrightarrow>
     exp_job_is_current e \<and> slug \<noteq> [] \<and> sublist slug (js_or (exp_company_linkedin_url e) [])"
  by (simp add: slug_match_def js_includes_iff_sublist)

lemma find_first:
  "i < length xs \<Longrightarrow> P (xs ! i) \<Longrightarrow> (\<forall>j<i. \<not> P (xs ! j)) \<Longrightarrow> find P xs = Some (xs ! i)"
  by (auto simp: find_Some_iff)

lemma find_none: "(\<forall>x\<in>set xs. \<not> P x) \<Longrightarrow> find P xs = None"
  by (simp add: find_None_iff)

text \<open>
  C8, amended. With the slug of the target URL being the last piece of the URL, less one
  slash at its end, split at \<^verbatim>\<open>/company/\<close> (all the text behind the marker, and the
  whole URL when it has no such marker), \<^verbatim>\<open>getCurrentExperience\<close> returns, in this
  order of priority: the first current entry whose company identifier contains the slug,
  when the slug is not empty; otherwise the first current entry; otherwise the first entry
  of the history; and the empty placeholder when the history is empty.
\<close>

theorem getCurrentExperience_priority:
  "(i < length h
      \<and> (exp_job_is_current (h ! i) \<and> company_slug url \<noteq> []
           \<and> sublist (company_slug url) (js_or (exp_company_linkedin_url (h ! i)) []))
      \<and> (\<forall>j<i. \<not> (exp_job_is_current (h ! j) \<and> company_slug url \<noteq> []
           \<and> sublist (company_slug url) (js_or (exp_company_linkedin_url (h ! j)) [])))
      \<longrightarrow> getCurrentExperience h url = h ! i)
   \<and> ((\<forall>e\<in>set h. \<not> (exp_job_is_current e \<and> company_slug url \<noteq> []
           \<and> sublist (company_slug url) (js_or (exp_company_linkedin_url e) [])))
      \<and> i < length h \<and> exp_job_is_current (h ! i) \<and> (\<forall>j<i. \<not> exp_job_is_current (h ! j))
      \<longrightarrow> getCurrentExperience h url = h ! i)
   \<and> ((\<forall>e\<in>set h. \<not> exp_job_is_current e) \<and> h \<noteq> [] \<longrightarrow> getCurrentExperience h url = hd h)
   \<and> (h = [] \<longrightarrow> getCurrentExperience h url = empty_experience)"
proof (intro conjI impI)
  assume a: "i < length h
      \<and> (exp_job_is_current (h ! i) \<and> company_slug url \<noteq> []
           \<and> sublist (company_slug url) (js_or (exp_company_linkedin_url (h ! i)) []))
      \<and> (\<forall>j<i. \<not> (exp_job_is_current (h ! j) \<and> company_slug url \<noteq> []
           \<and> sublist (company_slug url) (js_or (exp_company_linkedin_url (h ! j)) [])))"
  then have "find (slug_match (company_slug url)) h = Some (h ! i)"
    by (intro find_first) (auto simp: slug_match_iff)
  then show "getCurrentExperience h url = h ! i"
    by (simp add: getCurrentExperience_def)
next
  assume a: "(\<forall>e\<in>set h. \<not> (exp_job_is_current e \<and> company_slug url \<noteq> []
           \<and> sublist (company_slug url) (js_or (exp_company_linkedin_url e) [])))
      \<and> i < length h \<and> exp_job_is_current (h ! i) \<and> (\<forall>j<i. \<not> exp_job_is_current (h ! j))"
  then have "find (slug_match (company_slug url)) h = None"
    by (intro find_none) (auto simp: slug_match_iff)
  moreover from a have "find exp_job_is_current h = Some (h ! i)"
    by (intro find_first) auto
  ultimately show "getCurrentExperience h url = h ! i"
    by (simp add: getCurrentExperience_def)
next
  assume a: "(\<forall>e\<in>set h. \<not> exp_job_is_current e) \<and> h \<noteq> []"
  then have "find (slug_match (company_slug url)) h = None"
    by (intro find_none) (auto simp: slug_match_iff)
  moreover from a have "find exp_job_is_current h = None"
    by (intro find_none) auto
  ultimately show "getCurrentExperience h url = hd h"
    using a by (cases h) (simp_all add: getCurrentExperience_def)
next
  assume "h = []"
  then show "getCurrentExperience h url = empty_experience"
    by (simp add: getCurrentExperience_def)
qed

lemma company_slug_canonical:
  "company_slug ''https://www.linkedin.com/company/acme'' = ''acme''"
  "company_slug ''https://www.linkedin.com/company/acme/'' = ''acme''"
  by code_simp+

lemma company_slug_longer:
  "company_slug ''https://www.linkedin.com/company/acme/about'' = ''acme/about''"
  "company_slug ''acme'' = ''acme''"
  by code_simp+

theorem getCurrentExperience_priority_witness:
  "getCurrentExperience two_jobs ''https://www.linkedin.com/company/acme/'' = two_jobs ! 1
   \<and> getCurrentExperience two_jobs ''https://www.linkedin.com/company/initech'' = two_jobs ! 0
   \<and> getCurrentExperience [experience_at False ''https://www.linkedin.com/company/acme'' ''CEO'']
        ''https://www.linkedin.com/company/initech''
       = experience_at False ''https://www.linkedin.com/company/acme'' ''CEO''
   \<and> getCurrentExperience [] ''https://www.linkedin.com/company/acme'' = empty_experience"
proof -
  have s1: "company_slug ''https://www.linkedin.com/company/acme/'' = ''acme''" by code_simp
  have s2: "company_slug ''https://www.linkedin.com/company/initech'' = ''initech''" by code_simp
  have i1: "sublist ''acme'' ''https://www.linkedin.com/company/acme''"
    and i2: "\<not> sublist ''acme'' ''https://www.linkedin.com/company/other''"
    and i3: "\<not> sublist ''initech'' ''https://www.linkedin.com/company/other''"
    and i4: "\<not> sublist ''initech'' ''https://www.linkedin.com/company/acme''"
    by code_simp+
  show ?thesis
    using getCurrentExperience_priority [of 1 two_jobs "''https://www.linkedin.com/company/acme/''"]
          getCurrentExperience_priority [of 0 two_jobs "''https://www.linkedin.com/company/initech''"]
          getCurrentExperience_priority [of 0 "[experience_at False ''https://www.linkedin.com/company/acme'' ''CEO'']"
              "''https://www.linkedin.com/company/initech''"]
          getCurrentExperience_priority [of 0 "[]" "''https://www.linkedin.com/company/acme''"]
    by (simp add: two_jobs_def experience_at_def js_or_def s1 s2 i1 i2 i3 i4)
qed

text \<open>
  C8 as stated fails when the target URL goes on behind the company segment: the slug of
  \<^verbatim>\<open>.../company/acme/about\<close> is \<^verbatim>\<open>acme/about\<close>, no entry contains it, and
  the first current entry is returned instead of the current entry at \<^verbatim>\<open>acme\<close>.
\<close>

theorem getCurrentExperience_counterexample:
  "getCurrentExperience two_jobs ''https://www.linkedin.com/company/acme/about''
     \<noteq> spec_resolve two_jobs ''https://www.linkedin.com/company/acme/about''"
proof -
  have "getCurrentExperience two_jobs ''https://www.linkedin.com/company/acme/about'' = two_jobs ! 0"
    by code_simp
  moreover have "spec_resolve two_jobs ''https://www.linkedin.com/company/acme/about'' = two_jobs ! 1"
    by code_simp
  ultimately show ?thesis by (simp add: two_jobs_def experience_at_def)
qed

subsection \<open>Steps of the orchestrator\<close>

lemma preserved_trace:
  assumes "preserved skip P" "P i s" "quiet skip ext"
  shows "P i (s\<lparr>rs_trace := rs_trace s @ ext\<rparr>)"
proof -
  from assms(1) have "\<forall>i s ext. P i s \<and> quiet skip ext \<longrightarrow> P i (s\<lparr>rs_trace := rs_trace s @ ext\<rparr>)"
    unfolding preserved_def by (elim conjE) assumption
  then have "P i s \<and> quiet skip ext \<longrightarrow> P i (s\<lparr>rs_trace := rs_trace s @ ext\<rparr>)"
    by (elim allE)
  with assms(2,3) show ?thesis by (elim impE) (rule conjI)
qed

lemma preserved_email:
  assumes "preserved skip P" "P i s"
  shows "P i (broadcast [Set_emailsFound (var_emailsFound s + 1)] (s\<lparr>var_emailsFound := var_emailsFound s + 1\<rparr>))"
proof -
  from assms(1) have "\<forall>i s. P i s \<longrightarrow>
          P i (broadcast [Set_emailsFound (var_emailsFound s + 1)]
                 (s\<lparr>var_emailsFound := var_emailsFound s + 1\<rparr>))"
    unfolding preserved_def by (elim conjE) assumption
  then have "P i s \<longrightarrow>
          P i (broadcast [Set_emailsFound (var_emailsFound s + 1)]
                 (s\<lparr>var_emailsFound := var_emailsFound s + 1\<rparr>))"
    by (elim allE)
  with assms(2) show ?thesis by (elim impE)
qed

lemma preserved_phone:
  assumes "preserved skip P" "\<not> skip" "P i s"
  shows "P i (broadcast [Set_phonesFound (var_phonesFound s + 1)] (s\<lparr>var_phonesFound := var_phonesFound s + 1\<rparr>))"
proof -
  from assms(1) have "\<not> skip \<longrightarrow> (\<forall>i s. P i s \<longrightarrow>
          P i (broadcast [Set_phonesFound (var_phonesFound s + 1)]
                 (s\<lparr>var_phonesFound := var_phonesFound s + 1\<rparr>)))"
    unfolding preserved_def by (elim conjE) assumption
  with assms(2) have "\<forall>i s. P i s \<longrightarrow>
          P i (broadcast [Set_phonesFound (var_phonesFound s + 1)]
                 (s\<lparr>var_phonesFound := var_phonesFound s + 1\<rparr>))"
    by (elim impE)
  then have "P i s \<longrightarrow>
          P i (broadcast [Set_phonesFound (var_phonesFound s + 1)]
                 (s\<lparr>var_phonesFound := var_phonesFound s + 1\<rparr>))"
    by (elim allE)
  with assms(3) show ?thesis by (elim impE)
qed

lemma preserved_push:
  assumes "preserved skip P" "P i s"
  shows "P i (s\<lparr>rs_job := (rs_job s)\<lparr>results := results (rs_job s) @ [r]\<rparr>\<rparr>)"
proof -
  from assms(1) have "\<forall>i s r. P i s \<longrightarrow> P i (s\<lparr>rs_job := (rs_job s)\<lparr>results := results (rs_job s) @ [r]\<rparr>\<rparr>)"
    unfolding preserved_def by (elim conjE) assumption
  then have "P i s \<longrightarrow> P i (s\<lparr>rs_job := (rs_job s)\<lparr>results := results (rs_job s) @ [r]\<rparr>\<rparr>)"
    by (elim allE)
  with assms(2) show ?thesis by (elim impE)
qed

lemma preserved_employees:
  assumes "preserved skip P" "P i s"
  shows "P i (broadcast [Set_employeesFound (var_employeesFound s + n)]
          (s\<lparr>var_employeesFound := var_employeesFound s + n\<rparr>))"
proof -
  from assms(1) have "\<forall>i s n. P i s \<longrightarrow>
          P i (broadcast [Set_employeesFound (var_employeesFound s + n)]
                 (s\<lparr>var_employeesFound := var_employeesFound s + n\<rparr>))"
    unfolding preserved_def by (elim conjE) assumption
  then have "P i s \<longrightarrow>
          P i (broadcast [Set_employeesFound (var_employeesFound s + n)]
                 (s\<lparr>var_employeesFound := var_employeesFound s + n\<rparr>))"
    by (elim allE)
  with assms(2) show ?thesis by (elim impE)
qed

lemma preserved_row:
  assumes "preserved skip P" "P i s"
  shows "P (i + 1) (broadcast [Set_companyCurrent (i + 1), Set_currentCompanyName nm] s)"
proof -
  from assms(1) have "\<forall>i s nm. P i s \<longrightarrow>
          P (i + 1) (broadcast [Set_companyCurrent (i + 1), Set_currentCompanyName nm] s)"
    unfolding preserved_def by (elim conjE) assumption
  then have "P i s \<longrightarrow>
          P (i + 1) (broadcast [Set_companyCurrent (i + 1), Set_currentCompanyName nm] s)"
    by (elim allE)
  with assms(2) show ?thesis by (elim impE)
qed

lemma quiet_append [simp]: "quiet skip (a @ b) = (quiet skip a \<and> quiet skip b)"
  by (simp add: quiet_def)

lemma quiet_Nil [simp]: "quiet skip []"
  by (simp add: quiet_def)

lemma quiet_Cons [simp]: "quiet skip (e # ext) = (quiet_event skip e \<and> quiet skip ext)"
  by (simp add: quiet_def)

lemma client_events_quiet:
  "client_events ep b k ext \<Longrightarrow> (skip \<longrightarrow> ep \<noteq> ''/v2/enrichment/phone'') \<Longrightarrow> quiet skip ext"
  by (auto simp: client_events_def quiet_def list_all_iff)

lemma blitzPost_quiet:
  assumes "skip \<longrightarrow> ep \<noteq> ''/v2/enrichment/phone''"
  obtains j ext where "blitzPost nt ep b k tr = (Returned j, tr @ ext)" "quiet skip ext"
proof -
  obtain j ext where "blitzPost_from nt ep b k 4 0 tr = (Returned j, tr @ ext)"
    and "client_events ep b k ext"
    using blitzPost_from_shape [of nt ep b k 4 0 tr] by blast
  with assms that show thesis
    by (auto simp: blitzPost_def dest: client_events_quiet)
qed

lemma preserved_sleep:
  "preserved skip P \<Longrightarrow> P i s \<Longrightarrow> P i (sleep ms s)"
  unfolding sleep_def by (rule preserved_trace) simp_all

lemma email_step_null:
  "blitzPost nt ''/v2/enrichment/email'' (PersonBody liUrl) key (rs_trace s) = (Returned JNull, tr1) \<Longrightarrow>
   email_step nt key liUrl s
     = (Thrown ''Cannot read properties of null (reading email)'', s\<lparr>rs_trace := tr1\<rparr>)"
  by (simp add: email_step_def)

lemma email_step_object:
  "blitzPost nt ''/v2/enrichment/email'' (PersonBody liUrl) key (rs_trace s)
     = (Returned (JObject d), tr1) \<Longrightarrow>
   email_step nt key liUrl s =
     (Returned (js_or (data_email d) [], js_or (data_email_status d) []),
      sleep DELAY_MS
       (if js_or (data_email d) [] \<noteq> []
        then broadcast [Set_emailsFound (var_emailsFound s + 1)]
               (s\<lparr>rs_trace := tr1, var_emailsFound := var_emailsFound s + 1\<rparr>)
        else s\<lparr>rs_trace := tr1\<rparr>))"
  by (simp add: email_step_def Let_def)

lemma phone_step_null:
  "blitzPost nt ''/v2/enrichment/phone'' (PersonBody liUrl) key (rs_trace s) = (Returned JNull, tr1) \<Longrightarrow>
   phone_step nt key liUrl s
     = (Thrown ''Cannot read properties of null (reading phone)'', s\<lparr>rs_trace := tr1\<rparr>)"
  by (simp add: phone_step_def)

lemma phone_step_object:
  "blitzPost nt ''/v2/enrichment/phone'' (PersonBody liUrl) key (rs_trace s)
     = (Returned (JObject d), tr1) \<Longrightarrow>
   phone_step nt key liUrl s =
     (Returned (js_or (data_phone d) []),
      sleep DELAY_MS
       (if js_or (data_phone d) [] \<noteq> []
        then broadcast [Set_phonesFound (var_phonesFound s + 1)]
               (s\<lparr>rs_trace := tr1, var_phonesFound := var_phonesFound s + 1\<rparr>)
        else s\<lparr>rs_trace := tr1\<rparr>))"
  by (simp add: phone_step_def Let_def)

lemma email_step_preserves:
  assumes pr: "preserved skip P" and p: "P i s"
  shows "P i (snd (email_step nt key liUrl s))"
proof -
  obtain j ext where bp: "blitzPost nt ''/v2/enrichment/email'' (PersonBody liUrl) key (rs_trace s)
      = (Returned j, rs_trace s @ ext)" and q: "quiet skip ext"
    by (rule blitzPost_quiet [of skip "''/v2/enrichment/email''"]) simp_all
  let ?s1 = "s\<lparr>rs_trace := rs_trace s @ ext\<rparr>"
  have p1: "P i ?s1" using pr p q by (rule preserved_trace)
  show ?thesis
  proof (cases j)
    case JNull
    with bp have "snd (email_step nt key liUrl s) = ?s1" by (simp add: email_step_null)
    with p1 show ?thesis by simp
  next
    case (JObject d)
    let ?s2 = "broadcast [Set_emailsFound (var_emailsFound ?s1 + 1)] (?s1\<lparr>var_emailsFound := var_emailsFound ?s1 + 1\<rparr>)"
    have p2: "P i ?s2" using pr p1 by (rule preserved_email)
    have "P i (sleep DELAY_MS (if js_or (data_email d) [] \<noteq> [] then ?s2 else ?s1))"
      using pr by (rule preserved_sleep) (simp only: p1 p2 if_split, simp)
    moreover have "snd (email_step nt key liUrl s)
        = sleep DELAY_MS (if js_or (data_email d) [] \<noteq> [] then ?s2 else ?s1)"
      using bp JObject by (simp add: email_step_object)
    ultimately show ?thesis by simp
  qed
qed

lemma phone_step_preserves:
  assumes pr: "preserved skip P" and ns: "\<not> skip" and p: "P i s"
  shows "P i (snd (phone_step nt key liUrl s))"
proof -
  obtain j ext where bp: "blitzPost nt ''/v2/enrichment/phone'' (PersonBody liUrl) key (rs_trace s)
      = (Returned j, rs_trace s @ ext)" and q: "quiet skip ext"
    by (rule blitzPost_quiet [of skip "''/v2/enrichment/phone''"]) (use ns in simp_all)
  let ?s1 = "s\<lparr>rs_trace := rs_trace s @ ext\<rparr>"
  have p1: "P i ?s1" using pr p q by (rule preserved_trace)
  show ?thesis
  proof (cases j)
    case JNull
    with bp have "snd (phone_step nt key liUrl s) = ?s1" by (simp add: phone_step_null)
    with p1 show ?thesis by simp
  next
    case (JObject d)
    let ?s2 = "broadcast [Set_phonesFound (var_phonesFound ?s1 + 1)] (?s1\<lparr>var_phonesFound := var_phonesFound ?s1 + 1\<rparr>)"
    have p2: "P i ?s2" using pr ns p1 by (rule preserved_phone)
    have "P i (sleep DELAY_MS (if js_or (data_phone d) [] \<noteq> [] then ?s2 else ?s1))"
      using pr by (rule preserved_sleep) (simp only: p1 p2 if_split, simp)
    moreover have "snd (phone_step nt key liUrl s)
        = sleep DELAY_MS (if js_or (data_phone d) [] \<noteq> [] then ?s2 else ?s1)"
      using bp JObject by (simp add: phone_step_object)
    ultimately show ?thesis by simp
  qed
qed

lemma lookups_preserves:
  assumes pr: "preserved skip P" and p: "P i s"
  shows "P i (snd (lookups nt key skip liUrl s))"
proof (cases "liUrl = []")
  case True
  with p show ?thesis by (simp add: lookups_def)
next
  case False
  obtain r s1 where e: "email_step nt key liUrl s = (r, s1)" by (cases "email_step nt key liUrl s")
  have p1: "P i s1" using email_step_preserves [OF pr p, of nt key liUrl] e by simp
  show ?thesis
  proof (cases r)
    case (Returned es)
    obtain eml emailStatus where es: "es = (eml, emailStatus)" by (cases es)
    show ?thesis
    proof (cases skip)
      case True
      with False e Returned es p1 show ?thesis by (simp add: lookups_def)
    next
      case ns: False
      obtain r2 s2 where ph: "phone_step nt key liUrl s1 = (r2, s2)" by (cases "phone_step nt key liUrl s1")
      have "P i s2" using phone_step_preserves [OF pr ns p1, of nt key liUrl] ph by simp
      with False e Returned es ns ph show ?thesis
        by (cases r2) (simp_all add: lookups_def)
    qed
  qed (use False e p1 in \<open>simp_all add: lookups_def\<close>)
qed

lemma enrich_employee_preserves:
  assumes pr: "preserved skip P" and p: "P i s"
  shows "P i (snd (enrich_employee nt key skip co emp s))"
proof -
  let ?li = "js_or (emp_linkedin_url emp) []"
  obtain r s1 where l: "lookups nt key skip ?li s = (r, s1)" by (cases "lookups nt key skip ?li s")
  have p1: "P i s1" using lookups_preserves [OF pr p, of nt key ?li] l by simp
  show ?thesis
  proof (cases r)
    case (Returned t)
    obtain eml emailStatus phn where "t = (eml, emailStatus, phn)" by (cases t)
    with l Returned preserved_push [OF pr p1] show ?thesis
      by (simp add: enrich_employee_def Let_def)
  qed (use l p1 in \<open>simp_all add: enrich_employee_def Let_def\<close>)
qed

lemma enrich_employees_preserves:
  assumes pr: "preserved skip P"
  shows "P i s \<Longrightarrow> P i (snd (enrich_employees nt key skip co emps s))"
proof (induction emps arbitrary: s)
  case Nil
  then show ?case by simp
next
  case (Cons emp emps)
  obtain r s1 where e: "enrich_employee nt key skip co emp s = (r, s1)"
    by (cases "enrich_employee nt key skip co emp s")
  have p1: "P i s1" using enrich_employee_preserves [OF pr Cons.prems, of nt key co emp] e by simp
  show ?case
    using e p1 Cons.IH [OF p1] by (cases r) simp_all
qed

lemma findAllEmployees_loop_quiet:
  "\<exists>ext. snd (findAllEmployees_loop fuel nt url key acc page tr) = tr @ ext \<and> quiet skip ext"
proof (induction fuel arbitrary: acc page tr)
  case 0
  show ?case by (simp add: quiet_def)
next
  case (Suc fuel)
  let ?b = "SearchBody url PAGE_SIZE page"
  obtain j ext where bp: "blitzPost nt ''/v2/search/employee-finder'' ?b key tr = (Returned j, tr @ ext)"
    and q: "quiet skip ext"
    by (rule blitzPost_quiet [of skip "''/v2/search/employee-finder''"]) simp_all
  show ?case
  proof (cases j)
    case JNull
    with bp q show ?thesis by simp
  next
    case (JObject d)
    let ?results = "case data_results d of None \<Rightarrow> [] | Some rs \<Rightarrow> rs"
    show ?thesis
    proof (cases "length ?results < PAGE_SIZE")
      case True
      with bp JObject q show ?thesis by simp
    next
      case False
      from Suc.IH [of "acc @ ?results" "page + 1" "(tr @ ext) @ [Sleep DELAY_MS]"]
      obtain ext2 where "snd (findAllEmployees_loop fuel nt url key (acc @ ?results) (page + 1)
            ((tr @ ext) @ [Sleep DELAY_MS])) = ((tr @ ext) @ [Sleep DELAY_MS]) @ ext2"
        and "quiet skip ext2" by blast
      with bp JObject False q show ?thesis
        by (intro exI [of _ "ext @ [Sleep DELAY_MS] @ ext2"]) simp
    qed
  qed
qed

lemma findAllEmployees_quiet:
  obtains r ext where "findAllEmployees fuel nt url key tr = (r, tr @ ext)" "quiet skip ext"
proof -
  obtain ext where "snd (findAllEmployees_loop fuel nt url key [] 1 tr) = tr @ ext" "quiet skip ext"
    using findAllEmployees_loop_quiet [of fuel nt url key "[]" 1 tr skip] by blast
  then have "findAllEmployees fuel nt url key tr = (fst (findAllEmployees fuel nt url key tr), tr @ ext)"
    by (simp add: findAllEmployees_def prod_eq_iff)
  with \<open>quiet skip ext\<close> that show thesis by blast
qed

lemma process_row_skip:
  "companyUrl (row_company j rw) = [] \<Longrightarrow>
   process_row fuel nt j i rw s =
     (Returned (),
      broadcast [Set_companyCurrent (i + 1),
                 Set_currentCompanyName
                   (if companyName (row_company j rw) \<noteq> [] then companyName (row_company j rw)
                    else companyUrl (row_company j rw))] s)"
  by (simp add: process_row_def Let_def)

lemma process_row_employees:
  "companyUrl (row_company j rw) \<noteq> [] \<Longrightarrow>
   s1 = broadcast [Set_companyCurrent (i + 1),
                 Set_currentCompanyName
                   (if companyName (row_company j rw) \<noteq> [] then companyName (row_company j rw)
                    else companyUrl (row_company j rw))] s \<Longrightarrow>
   findAllEmployees fuel nt (companyUrl (row_company j rw)) (apiKey j) (rs_trace s1) = (Returned employees, tr1) \<Longrightarrow>
   process_row fuel nt j i rw s =
     enrich_employees nt (apiKey j) (skipPhone j) (row_company j rw) employees
       (broadcast [Set_employeesFound (var_employeesFound s1 + length employees)]
          (s1\<lparr>rs_trace := tr1, var_employeesFound := var_employeesFound s1 + length employees\<rparr>))"
  by (simp add: process_row_def Let_def)

lemma process_row_stopped:
  "companyUrl (row_company j rw) \<noteq> [] \<Longrightarrow>
   s1 = broadcast [Set_companyCurrent (i + 1),
                 Set_currentCompanyName
                   (if companyName (row_company j rw) \<noteq> [] then companyName (row_company j rw)
                    else companyUrl (row_company j rw))] s \<Longrightarrow>
   findAllEmployees fuel nt (companyUrl (row_company j rw)) (apiKey j) (rs_trace s1) = (r, tr1) \<Longrightarrow>
   r = OutOfFuel \<or> (\<exists>e. r = Thrown e) \<Longrightarrow>
   snd (process_row fuel nt j i rw s) = s1\<lparr>rs_trace := tr1\<rparr>"
  by (auto simp: process_row_def Let_def)

lemma process_row_preserves:
  assumes pr: "preserved (skipPhone j) P" and p: "P i s"
  shows "P (i + 1) (snd (process_row fuel nt j i rw s))"
proof -
  let ?co = "row_company j rw"
  let ?nm = "if companyName ?co \<noteq> [] then companyName ?co else companyUrl ?co"
  define s1 where "s1 = broadcast [Set_companyCurrent (i + 1), Set_currentCompanyName ?nm] s"
  have p1: "P (i + 1) s1" unfolding s1_def using pr p by (rule preserved_row)
  show ?thesis
  proof (cases "companyUrl ?co = []")
    case True
    then show ?thesis using p1 by (simp add: process_row_skip s1_def)
  next
    case False
    obtain r ext where f: "findAllEmployees fuel nt (companyUrl ?co) (apiKey j) (rs_trace s1) = (r, rs_trace s1 @ ext)"
      and q: "quiet (skipPhone j) ext"
      by (rule findAllEmployees_quiet)
    let ?s1' = "s1\<lparr>rs_trace := rs_trace s1 @ ext\<rparr>"
    have p1': "P (i + 1) ?s1'" using pr p1 q by (rule preserved_trace)
    show ?thesis
    proof (cases r)
      case (Returned employees)
      let ?n = "length employees"
      let ?s3 = "broadcast [Set_employeesFound (var_employeesFound ?s1' + ?n)]
                   (?s1'\<lparr>var_employeesFound := var_employeesFound ?s1' + ?n\<rparr>)"
      have p3: "P (i + 1) ?s3" using pr p1' by (rule preserved_employees)
      have "process_row fuel nt j i rw s = enrich_employees nt (apiKey j) (skipPhone j) ?co employees ?s3"
        using process_row_employees [OF False s1_def f [unfolded Returned]] by simp
      then show ?thesis
        using enrich_employees_preserves [OF pr p3] by simp
    next
      case (Thrown e)
      with process_row_stopped [OF False s1_def f] p1' show ?thesis by simp
    next
      case OutOfFuel
      with process_row_stopped [OF False s1_def f] p1' show ?thesis by simp
    qed
  qed
qed

lemma process_rows_preserves:
  assumes pr: "preserved (skipPhone j) P"
  shows "P i s \<Longrightarrow>
     (\<exists>k. P k (snd (process_rows fuel nt j i rws s)))
     \<and> (\<forall>u. fst (process_rows fuel nt j i rws s) = Returned u
            \<longrightarrow> P (i + length rws) (snd (process_rows fuel nt j i rws s)))"
proof (induction rws arbitrary: i s)
  case Nil
  then show ?case by auto
next
  case (Cons rw rws)
  obtain r s1 where e: "process_row fuel nt j i rw s = (r, s1)"
    by (cases "process_row fuel nt j i rw s")
  have p1: "P (i + 1) s1" using process_row_preserves [OF pr Cons.prems, of fuel nt rw] e by simp
  show ?case
  proof (cases r)
    case (Returned u)
    with e have "process_rows fuel nt j i (rw # rws) s = process_rows fuel nt j (i + 1) rws s1" by simp
    with Cons.IH [OF p1] show ?thesis by simp
  next
    case (Thrown x)
    with e p1 show ?thesis by auto
  next
    case OutOfFuel
    with e p1 show ?thesis by auto
  qed
qed

lemma broadcast_simps [simp]:
  "rs_trace (broadcast u s) = rs_trace s @ [Publish (object_assign (status (rs_job s)) u)]"
  "status (rs_job (broadcast u s)) = object_assign (status (rs_job s)) u"
  "results (rs_job (broadcast u s)) = results (rs_job s)"
  "var_employeesFound (broadcast u s) = var_employeesFound s"
  "var_emailsFound (broadcast u s) = var_emailsFound s"
  "var_phonesFound (broadcast u s) = var_phonesFound s"
  by (simp_all add: broadcast_def Let_def)

lemma quiet_snapshots: "quiet skip ext \<Longrightarrow> snapshots ext = []"
  by (induction ext rule: snapshots.induct) simp_all

lemma phone_calls_append [simp]: "phone_calls (a @ b) = phone_calls a @ phone_calls b"
  by (simp add: phone_calls_def)

lemma phone_calls_Nil [simp]: "phone_calls [] = []"
  by (simp add: phone_calls_def)

lemma phone_calls_Publish [simp]: "phone_calls [Publish st] = []"
  by (simp add: phone_calls_def)

lemma quiet_phone_calls: "quiet True ext \<Longrightarrow> phone_calls ext = []"
  by (induction ext rule: fetches.induct) (simp_all add: phone_calls_def)

lemma counters_le_refl [simp]: "counters_le a a"
  by (simp add: counters_le_def)

lemma counters_le_trans: "counters_le a b \<Longrightarrow> counters_le b c \<Longrightarrow> counters_le a c"
  by (auto simp: counters_le_def)

subsection \<open>The invariants hold along a run\<close>

lemma preserved_no_phone: "preserved True no_phone"
  unfolding preserved_def
  by (intro conjI allI impI)
     (auto simp: no_phone_def object_assign_def dest: quiet_snapshots quiet_phone_calls)

lemma preserved_running: "preserved skip running"
  unfolding preserved_def
  by (intro conjI allI impI)
     (auto simp: running_def object_assign_def dest: quiet_snapshots)

lemma counting_publish:
  assumes "counting n_rows i s" and "counters_le (status (rs_job s)) st" and "companyTotal st = n_rows"
  shows "sorted_wrt counters_le (snapshots (rs_trace s) @ [st])"
    and "\<forall>x \<in> set (snapshots (rs_trace s) @ [st]). counters_le x st \<and> companyTotal x = n_rows"
  using assms by (auto simp: counting_def sorted_wrt_append intro: counters_le_trans)

lemma preserved_counting: "preserved skip (counting n_rows)"
  unfolding preserved_def
proof (intro conjI allI impI)
  fix i s ext
  assume "counting n_rows i s \<and> quiet skip ext"
  then have "counting n_rows i s" "snapshots ext = []"
    by (auto dest: quiet_snapshots)
  then show "counting n_rows i (s\<lparr>rs_trace := rs_trace s @ ext\<rparr>)"
    by (simp add: counting_def)
next
  fix i s
  assume a: "counting n_rows i s"
  let ?st = "object_assign (status (rs_job s)) [Set_emailsFound (var_emailsFound s + 1)]"
  have "counters_le (status (rs_job s)) ?st" "companyTotal ?st = n_rows"
    using a by (simp_all add: counting_def counters_le_def object_assign_def)
  from counting_publish [OF a this] a
  show "counting n_rows i (broadcast [Set_emailsFound (var_emailsFound s + 1)]
          (s\<lparr>var_emailsFound := var_emailsFound s + 1\<rparr>))"
    by (simp add: counting_def object_assign_def)
next
  fix i s
  assume a: "counting n_rows i s"
  let ?st = "object_assign (status (rs_job s)) [Set_phonesFound (var_phonesFound s + 1)]"
  have "counters_le (status (rs_job s)) ?st" "companyTotal ?st = n_rows"
    using a by (simp_all add: counting_def counters_le_def object_assign_def)
  from counting_publish [OF a this] a
  show "counting n_rows i (broadcast [Set_phonesFound (var_phonesFound s + 1)]
          (s\<lparr>var_phonesFound := var_phonesFound s + 1\<rparr>))"
    by (simp add: counting_def object_assign_def)
next
  fix i s r
  assume "counting n_rows i s"
  then show "counting n_rows i (s\<lparr>rs_job := (rs_job s)\<lparr>results := results (rs_job s) @ [r]\<rparr>\<rparr>)"
    by (simp add: counting_def)
next
  fix i s n
  assume a: "counting n_rows i s"
  let ?st = "object_assign (status (rs_job s)) [Set_employeesFound (var_employeesFound s + n)]"
  have "counters_le (status (rs_job s)) ?st" "companyTotal ?st = n_rows"
    using a by (simp_all add: counting_def counters_le_def object_assign_def)
  from counting_publish [OF a this] a
  show "counting n_rows i (broadcast [Set_employeesFound (var_employeesFound s + n)]
          (s\<lparr>var_employeesFound := var_employeesFound s + n\<rparr>))"
    by (simp add: counting_def object_assign_def)
next
  fix i s nm
  assume a: "counting n_rows i s"
  let ?st = "object_assign (status (rs_job s)) [Set_companyCurrent (i + 1), Set_currentCompanyName nm]"
  have "counters_le (status (rs_job s)) ?st" "companyTotal ?st = n_rows"
    using a by (simp_all add: counting_def counters_le_def object_assign_def)
  from counting_publish [OF a this] a
  show "counting n_rows (i + 1) (broadcast [Set_companyCurrent (i + 1), Set_currentCompanyName nm] s)"
    by (simp add: counting_def object_assign_def)
qed

lemma preserved_synced: "preserved skip synced"
  unfolding preserved_def
  by (intro conjI allI impI) (auto simp: synced_def dest: quiet_snapshots)

lemma preserved_conj:
  assumes p: "preserved skip P" and q: "preserved skip Q"
  shows "preserved skip (\<lambda>i s. P i s \<and> Q i s)"
  unfolding preserved_def
proof (intro conjI allI impI)
  fix i s ext assume a: "(P i s \<and> Q i s) \<and> quiet skip ext"
  then have "P i s" "Q i s" "quiet skip ext" by simp_all
  from p this(1,3) show "P i (s\<lparr>rs_trace := rs_trace s @ ext\<rparr>)" by (rule preserved_trace)
  from q \<open>Q i s\<close> \<open>quiet skip ext\<close> show "Q i (s\<lparr>rs_trace := rs_trace s @ ext\<rparr>)" by (rule preserved_trace)
next
  fix i s assume "P i s \<and> Q i s"
  then have "P i s" "Q i s" by simp_all
  from p this(1) show "P i (broadcast [Set_emailsFound (var_emailsFound s + 1)] (s\<lparr>var_emailsFound := var_emailsFound s + 1\<rparr>))"
    by (rule preserved_email)
  from q \<open>Q i s\<close> show "Q i (broadcast [Set_emailsFound (var_emailsFound s + 1)] (s\<lparr>var_emailsFound := var_emailsFound s + 1\<rparr>))"
    by (rule preserved_email)
next
  fix i s assume ns: "\<not> skip" and "P i s \<and> Q i s"
  then have "P i s" "Q i s" by simp_all
  from p ns this(1) show "P i (broadcast [Set_phonesFound (var_phonesFound s + 1)] (s\<lparr>var_phonesFound := var_phonesFound s + 1\<rparr>))"
    by (rule preserved_phone)
  from q ns \<open>Q i s\<close> show "Q i (broadcast [Set_phonesFound (var_phonesFound s + 1)] (s\<lparr>var_phonesFound := var_phonesFound s + 1\<rparr>))"
    by (rule preserved_phone)
next
  fix i s r assume "P i s \<and> Q i s"
  then have "P i s" "Q i s" by simp_all
  from p this(1) show "P i (s\<lparr>rs_job := (rs_job s)\<lparr>results := results (rs_job s) @ [r]\<rparr>\<rparr>)"
    by (rule preserved_push)
  from q \<open>Q i s\<close> show "Q i (s\<lparr>rs_job := (rs_job s)\<lparr>results := results (rs_job s) @ [r]\<rparr>\<rparr>)"
    by (rule preserved_push)
next
  fix i s n assume "P i s \<and> Q i s"
  then have "P i s" "Q i s" by simp_all
  from p this(1) show "P i (broadcast [Set_employeesFound (var_employeesFound s + n)] (s\<lparr>var_employeesFound := var_employeesFound s + n\<rparr>))"
    by (rule preserved_employees)
  from q \<open>Q i s\<close> show "Q i (broadcast [Set_employeesFound (var_employeesFound s + n)] (s\<lparr>var_employeesFound := var_employeesFound s + n\<rparr>))"
    by (rule preserved_employees)
next
  fix i s nm assume "P i s \<and> Q i s"
  then have "P i s" "Q i s" by simp_all
  from p this(1) show "P (i + 1) (broadcast [Set_companyCurrent (i + 1), Set_currentCompanyName nm] s)"
    by (rule preserved_row)
  from q \<open>Q i s\<close> show "Q (i + 1) (broadcast [Set_companyCurrent (i + 1), Set_currentCompanyName nm] s)"
    by (rule preserved_row)
qed

lemma start_job_cases:
  assumes pr: "preserved (skipPhone j) P"
    and p0: "P 0 (broadcast [Set_phase Enriching] (initial_state j))"
  obtains (finished) s1 where "P (length (rows j)) s1"
      "runEnrichment fuel nt j =
         (Returned (), broadcast [Set_phase Done, Set_done True,
                         Set_employeesFound (var_employeesFound s1),
                         Set_emailsFound (var_emailsFound s1),
                         Set_phonesFound (var_phonesFound s1)] s1)"
      "start_job fuel nt j = runEnrichment fuel nt j"
    | (failed) s1 k e where "P k s1" "runEnrichment fuel nt j = (Thrown e, s1)"
      "start_job fuel nt j = (Returned (), broadcast [Set_phase Error, Set_error e, Set_done True] s1)"
    | (paging) s1 k where "P k s1" "runEnrichment fuel nt j = (OutOfFuel, s1)"
      "start_job fuel nt j = (OutOfFuel, s1)"
proof -
  let ?s0 = "broadcast [Set_phase Enriching] (initial_state j)"
  obtain r s1 where e: "process_rows fuel nt j 0 (rows j) ?s0 = (r, s1)"
    by (cases "process_rows fuel nt j 0 (rows j) ?s0")
  from process_rows_preserves [OF pr p0, of fuel nt "rows j"] e
  obtain k where k: "P k s1" and fin: "\<forall>u. r = Returned u \<longrightarrow> P (0 + length (rows j)) s1"
    by auto
  show thesis
  proof (cases r)
    case (Returned u)
    with fin have "P (length (rows j)) s1" by simp
    moreover have "runEnrichment fuel nt j =
         (Returned (), broadcast [Set_phase Done, Set_done True,
                         Set_employeesFound (var_employeesFound s1),
                         Set_emailsFound (var_emailsFound s1),
                         Set_phonesFound (var_phonesFound s1)] s1)"
      using e Returned by (simp add: runEnrichment_def Let_def)
    moreover from this have "start_job fuel nt j = runEnrichment fuel nt j"
      by (simp add: start_job_def)
    ultimately show thesis by (rule finished)
  next
    case (Thrown x)
    have r: "runEnrichment fuel nt j = (Thrown x, s1)"
      using e Thrown by (simp add: runEnrichment_def Let_def)
    then have "start_job fuel nt j = (Returned (), broadcast [Set_phase Error, Set_error x, Set_done True] s1)"
      by (simp add: start_job_def)
    with k r show thesis by (rule failed)
  next
    case OutOfFuel
    have r: "runEnrichment fuel nt j = (OutOfFuel, s1)"
      using e OutOfFuel by (simp add: runEnrichment_def Let_def)
    then have "start_job fuel nt j = (OutOfFuel, s1)"
      by (simp add: start_job_def)
    with k r show thesis by (rule paging)
  qed
qed

subsection \<open>The orchestrator\<close>

lemma new_job_simps [simp]:
  "status (new_job jid rws li nm dm lc sz key fld) =
     \<lparr>phase = Queued, companyCurrent = 0, companyTotal = length rws,
      currentCompanyName = None, employeesFound = 0, emailsFound = 0, phonesFound = 0,
      done_flag = False, error = None\<rparr>"
  "rows (new_job jid rws li nm dm lc sz key fld) = rws"
  "skipPhone (new_job jid rws li nm dm lc sz key fld) = doSkipPhone fld"
  "apiKey (new_job jid rws li nm dm lc sz key fld) = js_trim key"
  "results (new_job jid rws li nm dm lc sz key fld) = []"
  by (simp_all add: new_job_def)

lemma initial_state_simps [simp]:
  "rs_job (initial_state j) = j"
  "rs_trace (initial_state j) = []"
  "var_employeesFound (initial_state j) = 0"
  "var_emailsFound (initial_state j) = 0"
  "var_phonesFound (initial_state j) = 0"
  by (simp_all add: initial_state_def)

text \<open>
  C6. For a job created with the form value \<^verbatim>\<open>skipPhone = "true"\<close>, whatever the
  provider answers and however far the run has got, the trace holds no request to the
  phone endpoint, and \<open>phonesFound\<close> is 0 in the status at creation and in every snapshot
  published, the terminal one included.
\<close>

theorem skipPhone_never_looks_up_phone:
  "(let j = new_job jid rws li nm dm lc sz key (Some ''true'');
        s = snd (start_job fuel nt j)
    in phone_calls (rs_trace s) = []
       \<and> (\<forall>x \<in> set (status j # snapshots (rs_trace s)). phonesFound x = 0))"
proof -
  define j where "j = new_job jid rws li nm dm lc sz key (Some ''true'')"
  have sk: "skipPhone j" by (simp add: j_def doSkipPhone_def)
  have pr: "preserved (skipPhone j) no_phone" using sk preserved_no_phone by simp
  have p0: "no_phone 0 (broadcast [Set_phase Enriching] (initial_state j))"
    by (simp add: no_phone_def j_def object_assign_def phone_calls_def)
  have z: "phonesFound (status j) = 0" by (simp add: j_def)
  from pr p0 have "phone_calls (rs_trace (snd (start_job fuel nt j))) = []
       \<and> (\<forall>x \<in> set (status j # snapshots (rs_trace (snd (start_job fuel nt j)))). phonesFound x = 0)"
  proof (cases rule: start_job_cases [where fuel = fuel and nt = nt])
    case (finished s1)
    then show ?thesis using z by (simp add: no_phone_def object_assign_def)
  next
    case (failed s1 k e)
    then show ?thesis using z by (simp add: no_phone_def object_assign_def)
  next
    case (paging s1 k)
    then show ?thesis using z by (simp add: no_phone_def)
  qed
  then show ?thesis by (simp add: Let_def j_def)
qed

lemma counters_le_zero:
  "companyCurrent a = 0 \<Longrightarrow> employeesFound a = 0 \<Longrightarrow> emailsFound a = 0 \<Longrightarrow> phonesFound a = 0 \<Longrightarrow>
   counters_le a b"
  by (simp add: counters_le_def)

text \<open>
  C1, amended. Result retrieval returns the rows accumulated by a job if and only if the
  \<^verbatim>\<open>done\<close> flag of its status is set, and "not ready" otherwise (an unknown job id is
  "not found"). In every status a job goes through, the flag is set exactly in the phases
  \<open>Done\<close> and \<open>Error\<close>: the results of a job that ended in the \<open>Error\<close> phase are
  retrievable, the job in phase \<open>Queued\<close> or \<open>Enriching\<close> is not ready.
\<close>

theorem download_ready_iff_done_flag:
  "(let j = new_job jid rws li nm dm lc sz key fld;
        s = snd (start_job fuel nt j)
    in (\<forall>x \<in> set (status j # snapshots (rs_trace s)).
          done_flag x = (phase x = Done \<or> phase x = Error))
       \<and> status (rs_job s) \<in> set (status j # snapshots (rs_trace s)))
   \<and> (jobs i = Some jb \<longrightarrow>
        download jobs i =
          (if done_flag (status jb) then Http_ok (results jb)
           else Http_error 400 ''Enrichment not complete yet''))
   \<and> (jobs i = None \<longrightarrow> download jobs i = Http_error 404 ''Job not found or expired'')"
proof -
  define j where "j = new_job jid rws li nm dm lc sz key fld"
  let ?P = "\<lambda>i s. running i s \<and> synced i s"
  have pr: "preserved (skipPhone j) ?P"
    by (intro preserved_conj preserved_running preserved_synced)
  have p0: "?P 0 (broadcast [Set_phase Enriching] (initial_state j))"
    by (simp add: running_def synced_def j_def object_assign_def)
  have q: "\<not> done_flag (status j)" "phase (status j) = Queued" by (simp_all add: j_def)
  from pr p0 have "(\<forall>x \<in> set (status j # snapshots (rs_trace (snd (start_job fuel nt j)))).
          done_flag x = (phase x = Done \<or> phase x = Error))
       \<and> status (rs_job (snd (start_job fuel nt j)))
            \<in> set (status j # snapshots (rs_trace (snd (start_job fuel nt j))))"
  proof (cases rule: start_job_cases [where fuel = fuel and nt = nt])
    case (finished s1)
    then show ?thesis using q by (auto simp: running_def object_assign_def)
  next
    case (failed s1 k e)
    then show ?thesis using q by (auto simp: running_def object_assign_def)
  next
    case (paging s1 k)
    then show ?thesis using q by (auto simp: running_def synced_def)
  qed
  then show ?thesis by (simp add: Let_def j_def download_def)
qed

text \<open>
  C9. In the status of a job at creation followed by the snapshots published for it, in
  order, none of \<open>companyCurrent\<close>, \<open>employeesFound\<close>, \<open>emailsFound\<close> and
  \<open>phonesFound\<close> ever decreases; a snapshot in phase \<open>Done\<close> has \<open>companyCurrent\<close>
  equal to \<open>companyTotal\<close>; and when \<^verbatim>\<open>runEnrichment\<close> returns, the last snapshot is
  that \<open>Done\<close> snapshot, with both counters at the number of rows.
\<close>

theorem counters_never_decrease:
  "(let j = new_job jid rws li nm dm lc sz key fld;
        s = snd (start_job fuel nt j)
    in sorted_wrt counters_le (status j # snapshots (rs_trace s))
       \<and> (\<forall>x \<in> set (status j # snapshots (rs_trace s)).
             phase x = Done \<longrightarrow> companyCurrent x = companyTotal x)
       \<and> (\<forall>u. fst (runEnrichment fuel nt j) = Returned u \<longrightarrow>
             phase (last (snapshots (rs_trace s))) = Done
             \<and> companyCurrent (last (snapshots (rs_trace s))) = length rws
             \<and> companyTotal (last (snapshots (rs_trace s))) = length rws))"
proof -
  define j where "j = new_job jid rws li nm dm lc sz key fld"
  let ?P = "\<lambda>i s. counting (length rws) i s \<and> running i s"
  have pr: "preserved (skipPhone j) ?P"
    by (intro preserved_conj preserved_running preserved_counting)
  have p0: "?P 0 (broadcast [Set_phase Enriching] (initial_state j))"
    by (simp add: counting_def running_def j_def object_assign_def)
  have q: "phase (status j) = Queued" "rows j = rws" by (simp_all add: j_def)
  have z: "counters_le (status j) x" for x
    by (rule counters_le_zero) (simp_all add: j_def)
  from pr p0 have "sorted_wrt counters_le (status j # snapshots (rs_trace (snd (start_job fuel nt j))))
       \<and> (\<forall>x \<in> set (status j # snapshots (rs_trace (snd (start_job fuel nt j)))).
             phase x = Done \<longrightarrow> companyCurrent x = companyTotal x)
       \<and> (\<forall>u. fst (runEnrichment fuel nt j) = Returned u \<longrightarrow>
             phase (last (snapshots (rs_trace (snd (start_job fuel nt j))))) = Done
             \<and> companyCurrent (last (snapshots (rs_trace (snd (start_job fuel nt j))))) = length rws
             \<and> companyTotal (last (snapshots (rs_trace (snd (start_job fuel nt j))))) = length rws)"
  proof (cases rule: start_job_cases [where fuel = fuel and nt = nt])
    case (finished s1)
    let ?st = "object_assign (status (rs_job s1))
                 [Set_phase Done, Set_done True, Set_employeesFound (var_employeesFound s1),
                  Set_emailsFound (var_emailsFound s1), Set_phonesFound (var_phonesFound s1)]"
    from finished(1) have c: "counting (length rws) (length rws) s1" and r: "running (length rws) s1"
      by (simp_all add: q)
    have "counters_le (status (rs_job s1)) ?st" "companyTotal ?st = length rws"
      using c by (simp_all add: counting_def counters_le_def object_assign_def)
    from counting_publish(1) [OF c this]
    have "sorted_wrt counters_le (snapshots (rs_trace s1) @ [?st])" .
    moreover have "companyCurrent ?st = length rws" "phase ?st = Done"
      using c by (simp_all add: counting_def object_assign_def)
    ultimately show ?thesis
      using finished(2,3) q z r \<open>companyTotal ?st = length rws\<close>
      by (auto simp: running_def)
  next
    case (failed s1 k e)
    let ?st = "object_assign (status (rs_job s1)) [Set_phase Error, Set_error e, Set_done True]"
    from failed(1) have c: "counting (length rws) k s1" and r: "running k s1" by simp_all
    have "counters_le (status (rs_job s1)) ?st" "companyTotal ?st = length rws"
      using c by (simp_all add: counting_def counters_le_def object_assign_def)
    from counting_publish(1) [OF c this]
    have "sorted_wrt counters_le (snapshots (rs_trace s1) @ [?st])" .
    moreover have "phase ?st = Error" by (simp add: object_assign_def)
    ultimately show ?thesis
      using failed(2,3) q z r by (auto simp: running_def)
  next
    case (paging s1 k)
    then show ?thesis
      using q z by (auto simp: running_def counting_def)
  qed
  then show ?thesis by (simp add: Let_def j_def)
qed



text \<open>
  C7. A row whose company cell is empty after trimming is skipped without error: its pass
  through the loop returns normally, publishes the one snapshot that advances
  \<open>companyCurrent\<close>, issues no request, appends no result row, and the loop goes on with
  the next row.
\<close>

theorem empty_identifier_row_skipped:
  "js_trim (cell rw (linkedinCol j)) = [] \<longrightarrow>
     (let s1 = snd (process_row fuel nt j i rw s)
      in fst (process_row fuel nt j i rw s) = Returned ()
         \<and> rs_trace s1 = rs_trace s @ [Publish (status (rs_job s1))]
         \<and> companyCurrent (status (rs_job s1)) = i + 1
         \<and> fetches (rs_trace s1) = fetches (rs_trace s)
         \<and> results (rs_job s1) = results (rs_job s)
         \<and> process_rows fuel nt j i (rw # rest) s = process_rows fuel nt j (i + 1) rest s1)"
proof
  assume a: "js_trim (cell rw (linkedinCol j)) = []"
  then have u: "companyUrl (row_company j rw) = []" by (simp add: row_company_def Let_def)
  note r = process_row_skip [OF u, of fuel nt i s]
  show "let s1 = snd (process_row fuel nt j i rw s)
      in fst (process_row fuel nt j i rw s) = Returned ()
         \<and> rs_trace s1 = rs_trace s @ [Publish (status (rs_job s1))]
         \<and> companyCurrent (status (rs_job s1)) = i + 1
         \<and> fetches (rs_trace s1) = fetches (rs_trace s)
         \<and> results (rs_job s1) = results (rs_job s)
         \<and> process_rows fuel nt j i (rw # rest) s = process_rows fuel nt j (i + 1) rest s1"
    by (simp add: r Let_def object_assign_def)
qed

theorem skipPhone_never_looks_up_phone_witness:
  "phone_calls (rs_trace (snd (start_job 3 demo_net
       (demo_job [''https://www.linkedin.com/company/acme''] (Some ''true''))))) = []
   \<and> phonesFound (last (snapshots (rs_trace (snd (start_job 3 demo_net
         (demo_job [''https://www.linkedin.com/company/acme''] (Some ''true''))))))) = 0
   \<and> phase (last (snapshots (rs_trace (snd (start_job 3 demo_net
         (demo_job [''https://www.linkedin.com/company/acme''] (Some ''true''))))))) = Done"
proof -
  let ?snaps = "snapshots (rs_trace (snd (start_job 3 demo_net
         (demo_job [''https://www.linkedin.com/company/acme''] (Some ''true'')))))"
  have d: "phase (last ?snaps) = Done"
    by code_simp
  have "?snaps \<noteq> []"
    by code_simp
  then have m: "last ?snaps \<in> set ?snaps"
    by (rule last_in_set)
  note t = skipPhone_never_looks_up_phone [of "''job-1''"
        "map table_row [''https://www.linkedin.com/company/acme'']" "''Company LinkedIn Url''"
        None None None None "''key''" 3 demo_net]
  have j: "demo_job [''https://www.linkedin.com/company/acme''] (Some ''true'')
      = new_job ''job-1'' (map table_row [''https://www.linkedin.com/company/acme''])
          ''Company LinkedIn Url'' None None None None ''key'' (Some ''true'')"
    by (simp add: demo_job_def)
  from t have c: "phone_calls (rs_trace (snd (start_job 3 demo_net
       (demo_job [''https://www.linkedin.com/company/acme''] (Some ''true''))))) = []"
    and a: "\<forall>x \<in> set ?snaps. phonesFound x = 0"
    unfolding Let_def j [symmetric] by simp_all
  from a m have "phonesFound (last ?snaps) = 0" by (rule bspec)
  with c d show ?thesis by simp
qed

theorem download_ready_iff_done_flag_witness:
  "done_flag (status errored_job)
   \<and> download [''job-1'' \<mapsto> errored_job] ''job-1'' = Http_ok (results errored_job)
   \<and> download [''job-1'' \<mapsto> errored_job] ''job-2'' = Http_error 404 ''Job not found or expired''"
proof -
  let ?rws = "map table_row [''https://www.linkedin.com/company/acme'',
                            ''https://www.linkedin.com/company/broken'']"
  let ?jobs = "[''job-1'' \<mapsto> errored_job]"
  note t1 = download_ready_iff_done_flag [of "''job-1''" ?rws "''Company LinkedIn Url''"
        None None None None "''key''" None 3 demo_net ?jobs "''job-1''" errored_job]
  note t2 = download_ready_iff_done_flag [of "''job-1''" ?rws "''Company LinkedIn Url''"
        None None None None "''key''" None 3 demo_net ?jobs "''job-2''" errored_job]
  have e: "phase (status errored_job) = Error" by code_simp
  have j: "errored_job = rs_job (snd (start_job 3 demo_net
      (new_job ''job-1'' ?rws ''Company LinkedIn Url'' None None None None ''key'' None)))"
    by (simp add: errored_job_def demo_job_def)
  from t1 have "done_flag (status errored_job) = (phase (status errored_job) = Done \<or> phase (status errored_job) = Error)"
    unfolding Let_def j [symmetric] by blast
  with e have d: "done_flag (status errored_job)" by simp
  from t1 d have "download ?jobs ''job-1'' = Http_ok (results errored_job)" by simp
  moreover from t2 have "download ?jobs ''job-2'' = Http_error 404 ''Job not found or expired''" by simp
  ultimately show ?thesis using d by simp
qed

text \<open>
  C1 as stated fails for a job that reached the \<open>Error\<close> phase: the run below throws at
  its second company, after two result rows, and the download returns those rows.
\<close>

theorem download_errored_job_counterexample:
  "phase (status errored_job) = Error
   \<and> length (results errored_job) = 2
   \<and> download [''job-1'' \<mapsto> errored_job] ''job-1'' = Http_ok (results errored_job)"
  by code_simp

theorem counters_never_decrease_witness:
  "sorted_wrt counters_le
     (status (demo_job [''https://www.linkedin.com/company/acme''] None)
      # snapshots (rs_trace (snd (start_job 3 demo_net
          (demo_job [''https://www.linkedin.com/company/acme''] None)))))
   \<and> phase (last (snapshots (rs_trace (snd (start_job 3 demo_net
         (demo_job [''https://www.linkedin.com/company/acme''] None)))))) = Done
   \<and> companyCurrent (last (snapshots (rs_trace (snd (start_job 3 demo_net
         (demo_job [''https://www.linkedin.com/company/acme''] None)))))) = 1"
proof -
  have "fst (runEnrichment 3 demo_net (demo_job [''https://www.linkedin.com/company/acme''] None))
          = Returned ()"
    by code_simp
  then show ?thesis
    using counters_never_decrease [of "''job-1''"
        "map table_row [''https://www.linkedin.com/company/acme'']" "''Company LinkedIn Url''"
        None None None None "''key''" None 3 demo_net]
    by (simp add: demo_job_def Let_def)
qed

theorem empty_identifier_row_skipped_witness:
  "js_trim (cell (table_row [CHR 0x20, CHR 0xA0, CHR 0x09])
        (linkedinCol (demo_job [[CHR 0x20, CHR 0xA0, CHR 0x09]] None))) = []
   \<and> fst (process_row 3 demo_net (demo_job [[CHR 0x20, CHR 0xA0, CHR 0x09]] None) 0
            (table_row [CHR 0x20, CHR 0xA0, CHR 0x09])
            (initial_state (demo_job [[CHR 0x20, CHR 0xA0, CHR 0x09]] None))) = Returned ()
   \<and> fetches (rs_trace (snd (process_row 3 demo_net (demo_job [[CHR 0x20, CHR 0xA0, CHR 0x09]] None) 0
            (table_row [CHR 0x20, CHR 0xA0, CHR 0x09])
            (initial_state (demo_job [[CHR 0x20, CHR 0xA0, CHR 0x09]] None))))) = []
   \<and> results (rs_job (snd (process_row 3 demo_net (demo_job [[CHR 0x20, CHR 0xA0, CHR 0x09]] None) 0
            (table_row [CHR 0x20, CHR 0xA0, CHR 0x09])
            (initial_state (demo_job [[CHR 0x20, CHR 0xA0, CHR 0x09]] None))))) = []"
proof -
  let ?c = "[CHR 0x20, CHR 0xA0, CHR 0x09]"
  have h: "js_trim (cell (table_row ?c) (linkedinCol (demo_job [?c] None))) = []"
    by code_simp
  show ?thesis
    using h empty_identifier_row_skipped [of "table_row ?c" "demo_job [?c] None" 3 demo_net 0
        "initial_state (demo_job [?c] None)" "[]"]
    by (simp add: Let_def demo_job_def)
qed

subsection \<open>The phone lookups of a run\<close>

lemma preserved_extends_trace: "preserved skip (extends_trace tr)"
  unfolding preserved_def
  by (intro conjI allI impI) (auto simp: extends_trace_def)














lemma process_row_trace:
  "prefix (rs_trace s) (rs_trace (snd (process_row fuel nt j i rw s)))"
proof -
  have "extends_trace (rs_trace s) i s" by (simp add: extends_trace_def)
  from process_row_preserves [OF preserved_extends_trace this, where fuel = fuel and nt = nt and rw = rw]
  show ?thesis by (simp add: extends_trace_def)
qed














end
